theory Spec2Isabelle
  imports Complex_Main
begin

chapter \<open>Mini-Cover: the layered canvas renderer and its update pipeline\<close>

text \<open>
  A shallow embedding of the rendering script (the module that holds \<open>LRUCache\<close>,
  \<open>state\<close>, \<open>scheduleUpdate\<close>, the \<open>update...\<close> and \<open>draw...\<close> functions,
  \<open>composeCanvases\<close>, \<open>saveWebp\<close>, \<open>initialize\<close> and \<open>cleanup\<close>), of
  \<open>defaultConfig\<close> and of \<open>coverAPI.export\<close> from \<open>api/autoGenerate.js\<close>. Left out
  are \<open>scheduleDraw\<close> with its \<open>drawPending\<close> flags, which nothing calls, and the other
  functions of \<open>api/autoGenerate.js\<close>.

  Conventions of the embedding.
  \<^item> A JavaScript number is a \<open>real\<close>: the arithmetic of the source is read over the
    reals, so rounding of IEEE doubles, \<open>NaN\<close> and \<open>Infinity\<close> are not modelled. Where
    the source divides, the theorems assume a non-zero divisor.
  \<^item> A JavaScript string is a \<open>string\<close>, the bytes of its UTF-8 encoding. The source
    only tests strings for emptiness, searches and splits them at the line feed, and
    concatenates them; these agree on UTF-8 bytes and on UTF-16 code units.
  \<^item> An input event is the record of the three properties of \<open>event.target\<close> that the
    source reads: \<open>value\<close>, \<open>files\<close>, and the number that \<open>value\<close> denotes (the
    DOM's \<open>valueAsNumber\<close>). The source stores \<open>value\<close> itself in numeric fields of
    \<open>state\<close> and later uses it only under \<open>*\<close>, \<open>/\<close>, \<open>-\<close>, \<open>>\<close> and as a
    canvas attribute, all of which convert a numeric string to the number it denotes;
    the model stores that number.
  \<^item> A function of the source that mutates module variables takes the \<open>world\<close> (all
    module variables, the DOM elements the module reaches and the callbacks that are
    still to run) and returns an \<open>outcome\<close>: the world it leaves, either on return or at
    the point where an exception left the function.
  \<^item> A callback handed to the browser (\<open>requestAnimationFrame\<close>, \<open>img.onload\<close>,
    \<open>reader.onload\<close>, \<open>toBlob\<close>) is a \<open>task\<close> appended to \<open>pending\<close>; the body of
    the callback is a function of its own that takes what the browser passes to it.
\<close>

section \<open>The JavaScript \<open>Map\<close>: an insertion-ordered dictionary\<close>

text \<open>
  A \<open>Map\<close> iterates its keys in insertion order; \<open>set\<close> on a present key keeps the
  key's position, \<open>set\<close> on an absent key appends it. The list holds each key once.
\<close>

type_synonym ('k, 'v) js_map = "('k \<times> 'v) list"

definition Map_has :: "('k, 'v) js_map \<Rightarrow> 'k \<Rightarrow> bool" where
  "Map_has m k = (map_of m k \<noteq> None)"

definition Map_get :: "('k, 'v) js_map \<Rightarrow> 'k \<Rightarrow> 'v option" where
  "Map_get m k = map_of m k"

definition Map_delete :: "('k, 'v) js_map \<Rightarrow> 'k \<Rightarrow> ('k, 'v) js_map" where
  "Map_delete m k = filter (\<lambda>p. fst p \<noteq> k) m"

fun Map_set :: "('k, 'v) js_map \<Rightarrow> 'k \<Rightarrow> 'v \<Rightarrow> ('k, 'v) js_map" where
  "Map_set [] k v = [(k, v)]"
| "Map_set (p # ps) k v = (if fst p = k then (k, v) # ps else p # Map_set ps k v)"

definition Map_size :: "('k, 'v) js_map \<Rightarrow> int" where
  "Map_size m = int (length m)"

text \<open>\<open>m.keys().next().value\<close>: the first key, \<open>undefined\<close> (here \<open>None\<close>) for an empty map.\<close>

definition Map_first_key :: "('k, 'v) js_map \<Rightarrow> 'k option" where
  "Map_first_key m = (case m of [] \<Rightarrow> None | p # _ \<Rightarrow> Some (fst p))"

section \<open>\<open>class LRUCache\<close>\<close>

record ('k, 'v) LRUCache =
  maxSize :: int
  cache :: "('k, 'v) js_map"

definition LRUCache_new :: "int \<Rightarrow> ('k, 'v) LRUCache" where
  "LRUCache_new n = \<lparr>maxSize = n, cache = []\<rparr>"

text \<open>\<open>get(key)\<close> returns the value (\<open>null\<close> is \<open>None\<close>) and the cache it leaves.\<close>

definition LRUCache_get :: "('k, 'v) LRUCache \<Rightarrow> 'k \<Rightarrow> 'v option \<times> ('k, 'v) LRUCache" where
  "LRUCache_get c key =
     (if Map_has (cache c) key then
        (case Map_get (cache c) key of
           None \<Rightarrow> (None, c)
         | Some v \<Rightarrow> (Some v, c\<lparr>cache := Map_set (Map_delete (cache c) key) key v\<rparr>))
      else (None, c))"

text \<open>
  \<open>set(key, value)\<close>. When the map is empty \<open>firstKey\<close> is \<open>undefined\<close>, which is no key
  of the map, and \<open>delete\<close> removes nothing.
\<close>

definition LRUCache_set :: "('k, 'v) LRUCache \<Rightarrow> 'k \<Rightarrow> 'v \<Rightarrow> ('k, 'v) LRUCache" where
  "LRUCache_set c key v =
     (let m =
        (if Map_has (cache c) key then Map_delete (cache c) key
         else if Map_size (cache c) \<ge> maxSize c then
           (case Map_first_key (cache c) of
              None \<Rightarrow> cache c
            | Some firstKey \<Rightarrow> Map_delete (cache c) firstKey)
         else cache c)
      in c\<lparr>cache := Map_set m key v\<rparr>)"

definition LRUCache_clear :: "('k, 'v) LRUCache \<Rightarrow> ('k, 'v) LRUCache" where
  "LRUCache_clear c = c\<lparr>cache := []\<rparr>"

text \<open>\<open>const imageCache = new LRUCache(30)\<close>, as the module creates it.\<close>

definition new_imageCache :: "(string, string) LRUCache" where
  "new_imageCache = LRUCache_new 30"

text \<open>The calls a client can make on a cache, and a sequence of them run in order.\<close>

datatype ('k, 'v) cache_call = Get 'k | Set 'k 'v | Clear

fun cache_step :: "('k, 'v) LRUCache \<Rightarrow> ('k, 'v) cache_call \<Rightarrow> ('k, 'v) LRUCache" where
  "cache_step c (Get k) = snd (LRUCache_get c k)"
| "cache_step c (Set k v) = LRUCache_set c k v"
| "cache_step c Clear = LRUCache_clear c"

definition cache_run :: "('k, 'v) LRUCache \<Rightarrow> ('k, 'v) cache_call list \<Rightarrow> ('k, 'v) LRUCache" where
  "cache_run c cs = foldl cache_step c cs"

definition cache_inv :: "('k, 'v) LRUCache \<Rightarrow> bool" where
  "cache_inv c = (distinct (map fst (cache c)) \<and> Map_size (cache c) \<le> maxSize c)"

text \<open>
  The time of the last touch of each key: the calls are numbered from 1, a \<open>set\<close>
  touches its key, a \<open>get\<close> touches its key when it finds it. A key never touched has
  time 0.
\<close>

fun touch_step ::
  "('k, 'v) LRUCache \<times> ('k \<Rightarrow> nat) \<times> nat \<Rightarrow> ('k, 'v) cache_call \<Rightarrow>
   ('k, 'v) LRUCache \<times> ('k \<Rightarrow> nat) \<times> nat" where
  "touch_step (c, touched, t) (Get k) =
     (cache_step c (Get k), (if Map_has (cache c) k then touched(k := t) else touched), Suc t)"
| "touch_step (c, touched, t) (Set k v) = (cache_step c (Set k v), touched(k := t), Suc t)"
| "touch_step (c, touched, t) Clear = (cache_step c Clear, touched, Suc t)"

definition last_touch :: "(string, string) cache_call list \<Rightarrow> string \<Rightarrow> nat" where
  "last_touch cs = fst (snd (foldl touch_step (new_imageCache, (\<lambda>k. 0), 1) cs))"

definition touch_inv :: "('k, 'v) LRUCache \<times> ('k \<Rightarrow> nat) \<times> nat \<Rightarrow> bool" where
  "touch_inv s =
     (case s of (c, touched, t) \<Rightarrow>
        sorted_wrt (<) (map (\<lambda>p. touched (fst p)) (cache c))
        \<and> (\<forall>p \<in> set (cache c). touched (fst p) < t))"

text \<open>Thirty distinct keys \<open>x\<close>, \<open>xx\<close>, \<dots>, stored in this order: a full image cache.\<close>

definition fill30 :: "(string, string) cache_call list" where
  "fill30 = map (\<lambda>i. Set (replicate i CHR ''x'') ''data'') [1..<31]"

section \<open>\<open>defaultConfig\<close> and the reactive \<open>state\<close>\<close>

text \<open>
  \<open>defaultConfig.text\<close> is the four-character title U+68A6 U+7231 U+5403 U+9C7C,
  \<open>defaultConfig.watermark\<close> is \<open>@\<close> followed by it. \<open>defaultConfig.fontFamily\<close> is
  \<open>import.meta.env.VITE_APP_FONT_FAMILY\<close>, fixed when the application is built: a
  parameter here (\<open>None\<close> when the variable is not set).
\<close>

definition defaultConfig_text :: string where
  "defaultConfig_text =
     [CHR 0xE6, CHR 0xA2, CHR 0xA6, CHR 0xE7, CHR 0x88, CHR 0xB1,
      CHR 0xE5, CHR 0x90, CHR 0x83, CHR 0xE9, CHR 0xB1, CHR 0xBC]"

definition defaultConfig_watermark :: string where
  "defaultConfig_watermark = CHR ''@'' # defaultConfig_text"

record state =
  bgImageUrl :: "string option"
  squareImageUrl :: "string option"
  bgColor :: string
  textColor :: string
  watermarkColor :: string
  iconColor :: string
  rotation :: real
  shadowColor :: string
  shadowBlur :: real
  shadowOffsetX :: real
  shadowOffsetY :: real
  shadowStrength :: real
  watermark :: string
  textSize :: real
  lineHeight :: real
  text3D :: real
  squareSize :: real
  text' :: string
  bgBlur :: real
  iconBgSize :: real
  selectedFont :: "string option"
  isFontMenuOpen :: bool
  hasMultipleLines :: bool

definition initial_state :: "string option \<Rightarrow> state" where
  "initial_state fontFamily =
     \<lparr>bgImageUrl = None, squareImageUrl = None, bgColor = ''#ffffff'',
      textColor = ''#eeeeee'', watermarkColor = ''#dddddd'', iconColor = ''#eeeeee'',
      rotation = 0, shadowColor = ''#646464'', shadowBlur = 120, shadowOffsetX = 1,
      shadowOffsetY = 1, shadowStrength = 60, watermark = defaultConfig_watermark,
      textSize = 200, lineHeight = 1, text3D = 0, squareSize = 300,
      text' = defaultConfig_text, bgBlur = 3, iconBgSize = 0, selectedFont = fontFamily,
      isFontMenuOpen = False, hasMultipleLines = False\<rparr>"

text \<open>
  Truthiness of a value that is a string, \<open>null\<close> or \<open>undefined\<close>: the empty string is
  falsy like \<open>null\<close>.
\<close>

definition truthy :: "string option \<Rightarrow> bool" where
  "truthy v = (case v of None \<Rightarrow> False | Some s \<Rightarrow> s \<noteq> [])"

text \<open>\<open>s.split('\n')\<close> and \<open>s.includes('\n')\<close>.\<close>

fun split_on :: "'a \<Rightarrow> 'a list \<Rightarrow> 'a list list" where
  "split_on sep [] = [[]]"
| "split_on sep (c # cs) =
     (if c = sep then [] # split_on sep cs
      else (case split_on sep cs of [] \<Rightarrow> [[c]] | l # ls \<Rightarrow> (c # l) # ls))"

definition newline :: char where
  "newline = CHR 0x0A"

definition split_lines :: "string \<Rightarrow> string list" where
  "split_lines s = split_on newline s"

definition includes_newline :: "string \<Rightarrow> bool" where
  "includes_newline s = (newline \<in> set s)"

text \<open>The decimal digits of a natural number, as string concatenation renders it.\<close>

fun decimal :: "nat \<Rightarrow> string" where
  "decimal n =
     (if n < 10 then [char_of (48 + n)]
      else decimal (n div 10) @ [char_of (48 + n mod 10)])"

section \<open>Canvases\<close>

text \<open>
  The canvas API is the platform, not the program; the model keeps of it what the
  source relies on. A canvas element has its size, the drawing state of its 2D context
  (the attributes the source sets, the transform and the clip), the stack of
  \<open>save()\<close>, the current path, and its content: the painting calls made since the
  surface was last cleared, each with the drawing state it was made under. A
  \<open>clearRect\<close> that covers the whole surface, with no transform and no clip, leaves an
  empty surface.
\<close>

datatype css_filter = NoFilter | Blur real

text \<open>\<open>Font style size family\<close> is the CSS font string \<open>`${style} ${size}px ${family}`\<close>.\<close>

datatype css_font = Font string real string

datatype path_cmd = MoveTo real real | ArcTo real real real real real | ClosePath

datatype transform_step = Translate real real | Rotate real

record pen =
  fillStyle :: string
  font :: css_font
  textAlign :: string
  textBaseline :: string
  ctx_shadowColor :: string
  ctx_shadowBlur :: real
  ctx_shadowOffsetX :: real
  ctx_shadowOffsetY :: real
  ctx_filter :: css_filter
  ctx_transform :: "transform_step list"
  ctx_clip :: "path_cmd list list"

record image =
  img_src :: string
  img_width :: real
  img_height :: real

text \<open>
  \<open>DrawCanvas sw sh c x y w h\<close> is \<open>drawImage\<close> of a canvas of size \<open>sw\<close> by \<open>sh\<close> whose
  content was \<open>c\<close> at the time of the call, into the rectangle \<open>x y w h\<close>.
\<close>

datatype paint =
    ClearRect real real real real
  | FillRect real real real real
  | FillText string real real
  | FillPath "path_cmd list"
  | DrawImage image real real real real
  | DrawCanvas real real "(pen \<times> paint) list" real real real real

record canvas_el =
  width :: real
  height :: real
  pen :: pen
  saved :: "pen list"
  path :: "path_cmd list"
  content :: "(pen \<times> paint) list"

definition default_pen :: pen where
  "default_pen =
     \<lparr>fillStyle = ''#000000'', font = Font [] 10 ''sans-serif'', textAlign = ''start'',
      textBaseline = ''alphabetic'', ctx_shadowColor = ''rgba(0, 0, 0, 0)'',
      ctx_shadowBlur = 0, ctx_shadowOffsetX = 0, ctx_shadowOffsetY = 0,
      ctx_filter = NoFilter, ctx_transform = [], ctx_clip = []\<rparr>"

definition createCanvas :: "real \<Rightarrow> real \<Rightarrow> canvas_el" where
  "createCanvas w h =
     \<lparr>width = w, height = h, pen = default_pen, saved = [], path = [], content = []\<rparr>"

definition put :: "paint \<Rightarrow> canvas_el \<Rightarrow> canvas_el" where
  "put p cv = cv\<lparr>content := content cv @ [(pen cv, p)]\<rparr>"

definition clearRect :: "real \<Rightarrow> real \<Rightarrow> real \<Rightarrow> real \<Rightarrow> canvas_el \<Rightarrow> canvas_el" where
  "clearRect x y w h cv =
     (if x \<le> 0 \<and> y \<le> 0 \<and> width cv \<le> x + w \<and> height cv \<le> y + h
         \<and> ctx_transform (pen cv) = [] \<and> ctx_clip (pen cv) = []
      then cv\<lparr>content := []\<rparr>
      else put (ClearRect x y w h) cv)"

definition fillRect :: "real \<Rightarrow> real \<Rightarrow> real \<Rightarrow> real \<Rightarrow> canvas_el \<Rightarrow> canvas_el" where
  "fillRect x y w h cv = put (FillRect x y w h) cv"

definition fillText :: "string \<Rightarrow> real \<Rightarrow> real \<Rightarrow> canvas_el \<Rightarrow> canvas_el" where
  "fillText s x y cv = put (FillText s x y) cv"

definition drawImage :: "image \<Rightarrow> real \<Rightarrow> real \<Rightarrow> real \<Rightarrow> real \<Rightarrow> canvas_el \<Rightarrow> canvas_el" where
  "drawImage img x y w h cv = put (DrawImage img x y w h) cv"

text \<open>\<open>drawImage(canvas, x, y, w, h)\<close> and \<open>drawImage(canvas, x, y)\<close> with a canvas as source.\<close>

definition drawCanvas ::
  "canvas_el \<Rightarrow> real \<Rightarrow> real \<Rightarrow> real \<Rightarrow> real \<Rightarrow> canvas_el \<Rightarrow> canvas_el" where
  "drawCanvas src x y w h cv = put (DrawCanvas (width src) (height src) (content src) x y w h) cv"

definition drawCanvas_at :: "canvas_el \<Rightarrow> real \<Rightarrow> real \<Rightarrow> canvas_el \<Rightarrow> canvas_el" where
  "drawCanvas_at src x y cv = drawCanvas src x y (width src) (height src) cv"

definition set_pen :: "(pen \<Rightarrow> pen) \<Rightarrow> canvas_el \<Rightarrow> canvas_el" where
  "set_pen f cv = cv\<lparr>pen := f (pen cv)\<rparr>"

definition save :: "canvas_el \<Rightarrow> canvas_el" where
  "save cv = cv\<lparr>saved := pen cv # saved cv\<rparr>"

definition restore :: "canvas_el \<Rightarrow> canvas_el" where
  "restore cv = (case saved cv of [] \<Rightarrow> cv | p # ps \<Rightarrow> cv\<lparr>pen := p, saved := ps\<rparr>)"

definition translate :: "real \<Rightarrow> real \<Rightarrow> canvas_el \<Rightarrow> canvas_el" where
  "translate x y cv = set_pen (\<lambda>p. p\<lparr>ctx_transform := ctx_transform p @ [Translate x y]\<rparr>) cv"

definition rotate_ctx :: "real \<Rightarrow> canvas_el \<Rightarrow> canvas_el" where
  "rotate_ctx a cv = set_pen (\<lambda>p. p\<lparr>ctx_transform := ctx_transform p @ [Rotate a]\<rparr>) cv"

definition beginPath :: "canvas_el \<Rightarrow> canvas_el" where
  "beginPath cv = cv\<lparr>path := []\<rparr>"

definition moveTo :: "real \<Rightarrow> real \<Rightarrow> canvas_el \<Rightarrow> canvas_el" where
  "moveTo x y cv = cv\<lparr>path := path cv @ [MoveTo x y]\<rparr>"

definition arcTo :: "real \<Rightarrow> real \<Rightarrow> real \<Rightarrow> real \<Rightarrow> real \<Rightarrow> canvas_el \<Rightarrow> canvas_el" where
  "arcTo x1 y1 x2 y2 r cv = cv\<lparr>path := path cv @ [ArcTo x1 y1 x2 y2 r]\<rparr>"

definition closePath :: "canvas_el \<Rightarrow> canvas_el" where
  "closePath cv = cv\<lparr>path := path cv @ [ClosePath]\<rparr>"

definition fill_path :: "canvas_el \<Rightarrow> canvas_el" where
  "fill_path cv = put (FillPath (path cv)) cv"

definition clip :: "canvas_el \<Rightarrow> canvas_el" where
  "clip cv = set_pen (\<lambda>p. p\<lparr>ctx_clip := ctx_clip p @ [path cv]\<rparr>) cv"

section \<open>The module's variables and its environment\<close>

record js_file =
  file_name :: string
  file_size :: nat

record event =
  target_value :: string
  target_valueAsNumber :: real
  target_files :: "js_file list"

record blob =
  blob_size :: nat
  blob_type :: string

record download =
  dl_href :: string
  dl_name :: string

text \<open>
  What the browser answers: the data URL a \<open>FileReader\<close> reads from a file, the image
  an URL decodes to (\<open>None\<close> when decoding fails and \<open>onload\<close> never fires), the blob
  \<open>toBlob\<close> encodes from a canvas (\<open>None\<close> is \<open>null\<close>), \<open>URL.createObjectURL\<close> and
  \<open>Date.now()\<close>.
\<close>

record browser =
  readAsDataURL :: "js_file \<Rightarrow> string"
  decode :: "string \<Rightarrow> image option"
  toBlob :: "canvas_el \<Rightarrow> string \<Rightarrow> real \<Rightarrow> blob option"
  createObjectURL :: "blob \<Rightarrow> string"
  now :: nat

text \<open>The two arrow functions that \<open>loadImage\<close> is called with.\<close>

datatype load_callback = SetBackground | SetSquare

datatype task =
    Frame
  | ReaderOnload js_file load_callback
  | BgOnload string
  | SquareOnload string
  | ToBlob nat string real

text \<open>
  \<open>calls\<close> is not a variable of the source: it logs each entry into a draw function
  and into the compositor, so that the number of redraws and of compositor passes
  is a value of the model.
\<close>

datatype call =
    Call_drawBackground | Call_drawText | Call_drawWatermark | Call_drawSquareImage
  | Call_composeCanvases

text \<open>
  \<open>canvas\<close> and \<open>ctx\<close> hold references into \<open>elements\<close>, the canvas elements of the
  document; \<open>ctx\<close> is the 2D context of the element it names. \<open>document_canvasPreview\<close>
  is what \<open>document.getElementById('canvasPreview')\<close> returns, \<open>htmlFontFamily\<close> the
  computed font family of the document element.
\<close>

record world =
  imageCache :: "(string, string) LRUCache"
  state :: state
  canvas :: "nat option"
  ctx :: "nat option"
  updateQueue :: "(string \<times> event) list"
  updateScheduled :: bool
  bgCanvas :: canvas_el
  textCanvas :: canvas_el
  watermarkCanvas :: canvas_el
  squareCanvas :: canvas_el
  elements :: "nat \<Rightarrow> canvas_el"
  document_canvasPreview :: "nat option"
  htmlFontFamily :: string
  pending :: "task list"
  console :: "string list"
  downloads :: "download list"
  calls :: "call list"

text \<open>The module as loaded, before \<open>initialize\<close>.\<close>

definition initial_world ::
  "string option \<Rightarrow> (nat \<Rightarrow> canvas_el) \<Rightarrow> nat option \<Rightarrow> string \<Rightarrow> world" where
  "initial_world fontFamily els preview family =
     \<lparr>imageCache = new_imageCache, state = initial_state fontFamily, canvas = None,
      ctx = None, updateQueue = [], updateScheduled = False,
      bgCanvas = createCanvas 1000 500, textCanvas = createCanvas 1000 500,
      watermarkCanvas = createCanvas 1000 500, squareCanvas = createCanvas 1000 500,
      elements = els, document_canvasPreview = preview, htmlFontFamily = family,
      pending = [], console = [], downloads = [], calls = []\<rparr>"

datatype js_error = TypeError | Error string

datatype outcome = Returned world | Threw js_error world

fun world_of :: "outcome \<Rightarrow> world" where
  "world_of (Returned w) = w"
| "world_of (Threw e w) = w"

fun thrown :: "outcome \<Rightarrow> js_error option" where
  "thrown (Returned w) = None"
| "thrown (Threw e w) = Some e"

text \<open>Sequencing: the next statement runs only when the one before returned.\<close>

definition and_then :: "outcome \<Rightarrow> (world \<Rightarrow> outcome) \<Rightarrow> outcome" where
  "and_then r f = (case r of Returned w \<Rightarrow> f w | Threw e w \<Rightarrow> Threw e w)"

definition string_of :: "string option \<Rightarrow> string" where
  "string_of v = (case v of None \<Rightarrow> [] | Some s \<Rightarrow> s)"

section \<open>\<open>composeCanvases\<close>\<close>

text \<open>
  With \<open>ctx\<close> set and \<open>canvas\<close> \<open>null\<close> (which \<open>initialize\<close> leaves when it is called
  again after the element is gone), \<open>canvas.width\<close> throws a \<open>TypeError\<close>.
\<close>

definition composeCanvases :: "world \<Rightarrow> outcome" where
  "composeCanvases w0 =
     (let w = w0\<lparr>calls := calls w0 @ [Call_composeCanvases]\<rparr> in
      case ctx w of
        None \<Rightarrow> Returned w
      | Some c \<Rightarrow>
          (case canvas w of
             None \<Rightarrow> Threw TypeError w
           | Some cv \<Rightarrow>
               let out = elements w c;
                   out = clearRect 0 0 (width (elements w cv)) (height (elements w cv)) out;
                   out = drawCanvas_at (bgCanvas w) 0 0 out;
                   out = drawCanvas_at (textCanvas w) 0 0 out;
                   out = drawCanvas_at (squareCanvas w) 0 0 out;
                   out = drawCanvas_at (watermarkCanvas w) 0 0 out
               in Returned (w\<lparr>elements := (elements w)(c := out)\<rparr>)))"

section \<open>The layer redraws\<close>

subsection \<open>\<open>drawBackground\<close>\<close>

text \<open>
  The placement computed in \<open>img.onload\<close>: \<open>(x, y, width, height)\<close> of the image on a
  surface of size \<open>cw\<close> by \<open>ch\<close>.
\<close>

definition cover_placement :: "real \<Rightarrow> real \<Rightarrow> image \<Rightarrow> real \<times> real \<times> real \<times> real" where
  "cover_placement cw ch img =
     (let scaleX = cw / img_width img;
          scaleY = ch / img_height img;
          scale = max scaleX scaleY;
          width' = img_width img * scale;
          height' = img_height img * scale;
          x = (cw - width') / 2;
          y = (ch - height') / 2
      in (x, y, width', height'))"

definition drawBackground_onload :: "image \<Rightarrow> world \<Rightarrow> outcome" where
  "drawBackground_onload img w =
     (let bg = bgCanvas w;
          (x, y, width', height') = cover_placement (width bg) (height bg) img;
          bg = set_pen (\<lambda>p. p\<lparr>ctx_filter := Blur (bgBlur (state w))\<rparr>) bg;
          bg = drawImage img x y width' height' bg
      in composeCanvases (w\<lparr>bgCanvas := bg\<rparr>))"

definition drawBackground :: "world \<Rightarrow> outcome" where
  "drawBackground w0 =
     (let w = w0\<lparr>calls := calls w0 @ [Call_drawBackground]\<rparr>;
          bg = clearRect 0 0 (width (bgCanvas w)) (height (bgCanvas w)) (bgCanvas w)
      in if truthy (bgImageUrl (state w)) then
           Returned (w\<lparr>bgCanvas := bg,
                       pending := pending w @ [BgOnload (string_of (bgImageUrl (state w)))]\<rparr>)
         else
           (let bg = set_pen (\<lambda>p. p\<lparr>fillStyle := bgColor (state w)\<rparr>) bg;
                bg = fillRect 0 0 (width bg) (height bg) bg
            in composeCanvases (w\<lparr>bgCanvas := bg\<rparr>)))"

subsection \<open>\<open>drawSquareImage\<close>\<close>

text \<open>
  The block under \<open>// Calculate scale\<close>: \<open>(offsetX, offsetY, scaledWidth, scaledHeight)\<close>
  of the icon image in the inner square of side \<open>size\<close>.
\<close>

definition icon_placement :: "real \<Rightarrow> image \<Rightarrow> real \<times> real \<times> real \<times> real" where
  "icon_placement size' squareImg =
     (let imgAspectRatio = img_width squareImg / img_height squareImg;
          containerAspectRatio = size' / size';
          (scaledWidth, scaledHeight) =
            (if imgAspectRatio > containerAspectRatio then (size', size' / imgAspectRatio)
             else (size' * imgAspectRatio, size'));
          offsetX = (size' - scaledWidth) / 2;
          offsetY = (size' - scaledHeight) / 2
      in (offsetX, offsetY, scaledWidth, scaledHeight))"

definition borderWidth :: real where
  "borderWidth = 20"

definition radius :: real where
  "radius = 30"

definition drawSquareImage_onload :: "image \<Rightarrow> world \<Rightarrow> outcome" where
  "drawSquareImage_onload squareImg w =
     (let totalSize = squareSize (state w);
          size' = totalSize - 2 * borderWidth;
          x = (width (squareCanvas w) - totalSize) / 2;
          y = (height (squareCanvas w) - totalSize) / 2;
          t = createCanvas totalSize totalSize;
          t = (if iconBgSize (state w) > 0 then
                 (let bgPadding = iconBgSize (state w);
                      t = set_pen (\<lambda>p. p\<lparr>fillStyle := iconColor (state w)\<rparr>) t;
                      t = beginPath t;
                      t = moveTo (radius + borderWidth - bgPadding) (borderWidth - bgPadding) t;
                      t = arcTo (totalSize - borderWidth + bgPadding) (borderWidth - bgPadding)
                            (totalSize - borderWidth + bgPadding)
                            (radius + borderWidth - bgPadding) radius t;
                      t = arcTo (totalSize - borderWidth + bgPadding)
                            (totalSize - borderWidth + bgPadding)
                            (totalSize - radius - borderWidth + bgPadding)
                            (totalSize - borderWidth + bgPadding) radius t;
                      t = arcTo (borderWidth - bgPadding) (totalSize - borderWidth + bgPadding)
                            (borderWidth - bgPadding)
                            (totalSize - radius - borderWidth + bgPadding) radius t;
                      t = arcTo (borderWidth - bgPadding) (borderWidth - bgPadding)
                            (radius + borderWidth - bgPadding) (borderWidth - bgPadding) radius t;
                      t = closePath t
                  in fill_path t)
               else t);
          t = save t;
          t = beginPath t;
          t = moveTo (radius + borderWidth) borderWidth t;
          t = arcTo (totalSize - borderWidth) borderWidth (totalSize - borderWidth)
                (radius + borderWidth) radius t;
          t = arcTo (totalSize - borderWidth) (totalSize - borderWidth)
                (totalSize - radius - borderWidth) (totalSize - borderWidth) radius t;
          t = arcTo borderWidth (totalSize - borderWidth) borderWidth
                (totalSize - radius - borderWidth) radius t;
          t = arcTo borderWidth borderWidth (radius + borderWidth) borderWidth radius t;
          t = closePath t;
          t = clip t;
          (offsetX, offsetY, scaledWidth, scaledHeight) = icon_placement size' squareImg;
          t = drawImage squareImg (borderWidth + offsetX) (borderWidth + offsetY)
                scaledWidth scaledHeight t;
          t = restore t;
          sq = save (squareCanvas w);
          sq = set_pen (\<lambda>p. p\<lparr>ctx_shadowColor := shadowColor (state w),
                               ctx_shadowBlur := shadowBlur (state w),
                               ctx_shadowOffsetX := shadowOffsetX (state w),
                               ctx_shadowOffsetY := shadowOffsetY (state w)\<rparr>) sq;
          sq = translate (x + totalSize / 2) (y + totalSize / 2) sq;
          sq = rotate_ctx (rotation (state w) * pi / 180) sq;
          sq = translate (- (x + totalSize / 2)) (- (y + totalSize / 2)) sq;
          sq = drawCanvas t x y totalSize totalSize sq;
          sq = restore sq
      in composeCanvases (w\<lparr>squareCanvas := sq\<rparr>))"

definition drawSquareImage :: "world \<Rightarrow> outcome" where
  "drawSquareImage w0 =
     (let w = w0\<lparr>calls := calls w0 @ [Call_drawSquareImage]\<rparr>;
          sq = clearRect 0 0 (width (squareCanvas w)) (height (squareCanvas w)) (squareCanvas w)
      in if truthy (squareImageUrl (state w)) then
           Returned (w\<lparr>squareCanvas := sq,
                       pending := pending w @ [SquareOnload (string_of (squareImageUrl (state w)))]\<rparr>)
         else composeCanvases (w\<lparr>squareCanvas := sq\<rparr>))"

subsection \<open>\<open>drawText\<close> and \<open>drawWatermark\<close>\<close>

definition font_family :: "world \<Rightarrow> string" where
  "font_family w =
     (let fontFamily = htmlFontFamily w in
      if truthy (selectedFont (state w))
      then string_of (selectedFont (state w)) @ '', '' @ fontFamily
      else fontFamily)"

definition drawText :: "world \<Rightarrow> outcome" where
  "drawText w0 =
     (let w = w0\<lparr>calls := calls w0 @ [Call_drawText]\<rparr>;
          tc = clearRect 0 0 (width (textCanvas w)) (height (textCanvas w)) (textCanvas w);
          tc = set_pen (\<lambda>p. p\<lparr>font := Font ''600'' (textSize (state w)) (font_family w),
                               fillStyle := textColor (state w),
                               textAlign := ''center'',
                               textBaseline := ''middle''\<rparr>) tc;
          tc = (if text3D (state w) > 0 then
                  set_pen (\<lambda>p. p\<lparr>ctx_shadowColor := ''rgba(0, 0, 0, .4)'',
                                  ctx_shadowBlur := text3D (state w) * 0.5,
                                  ctx_shadowOffsetX := text3D (state w),
                                  ctx_shadowOffsetY := text3D (state w)\<rparr>) tc
                else
                  set_pen (\<lambda>p. p\<lparr>ctx_shadowColor := ''transparent'',
                                  ctx_shadowBlur := 0,
                                  ctx_shadowOffsetX := 0,
                                  ctx_shadowOffsetY := 0\<rparr>) tc);
          lines = split_lines (text' (state w));
          lineHeight' = textSize (state w) * lineHeight (state w);
          totalHeight = lineHeight' * real (length lines);
          startY = (height tc - totalHeight) / 2 + lineHeight' / 2;
          tc = foldl (\<lambda>cv (index, line).
                   fillText line (width cv / 2) (startY + real index * lineHeight') cv)
                 tc (enumerate 0 lines)
      in composeCanvases (w\<lparr>textCanvas := tc\<rparr>))"

definition drawWatermark :: "world \<Rightarrow> outcome" where
  "drawWatermark w0 =
     (let w = w0\<lparr>calls := calls w0 @ [Call_drawWatermark]\<rparr>;
          wc = clearRect 0 0 (width (watermarkCanvas w)) (height (watermarkCanvas w))
                 (watermarkCanvas w);
          wc = set_pen (\<lambda>p. p\<lparr>font := Font ''italic'' 14 (font_family w),
                               fillStyle := watermarkColor (state w),
                               textAlign := ''right''\<rparr>) wc;
          wc = fillText (watermark (state w)) (width wc - 20) (height wc - 20) wc
      in composeCanvases (w\<lparr>watermarkCanvas := wc\<rparr>))"

section \<open>\<open>loadImage\<close> and the update functions\<close>

definition run_callback :: "load_callback \<Rightarrow> string \<Rightarrow> world \<Rightarrow> outcome" where
  "run_callback cb url w =
     (case cb of
        SetBackground \<Rightarrow> drawBackground (w\<lparr>state := (state w)\<lparr>bgImageUrl := Some url\<rparr>\<rparr>)
      | SetSquare \<Rightarrow> drawSquareImage (w\<lparr>state := (state w)\<lparr>squareImageUrl := Some url\<rparr>\<rparr>))"

definition cacheKey :: "js_file \<Rightarrow> string" where
  "cacheKey f = file_name f @ decimal (file_size f)"

definition loadImage :: "js_file \<Rightarrow> load_callback \<Rightarrow> world \<Rightarrow> outcome" where
  "loadImage f cb w0 =
     (let (cached, c) = LRUCache_get (imageCache w0) (cacheKey f);
          w = w0\<lparr>imageCache := c\<rparr>
      in if truthy cached then run_callback cb (string_of cached) w
         else Returned (w\<lparr>pending := pending w @ [ReaderOnload f cb]\<rparr>))"

text \<open>\<open>reader.onload\<close>, with \<open>e.target.result\<close>.\<close>

definition reader_onload :: "string \<Rightarrow> js_file \<Rightarrow> load_callback \<Rightarrow> world \<Rightarrow> outcome" where
  "reader_onload result f cb w =
     run_callback cb result (w\<lparr>imageCache := LRUCache_set (imageCache w) (cacheKey f) result\<rparr>)"

definition updateBackgroundImage :: "event \<Rightarrow> world \<Rightarrow> outcome" where
  "updateBackgroundImage e w =
     (case target_files e of
        [] \<Rightarrow> Returned w
      | bgImage # _ \<Rightarrow> loadImage bgImage SetBackground w)"

definition updateBackgroundColor :: "event \<Rightarrow> world \<Rightarrow> outcome" where
  "updateBackgroundColor e w =
     drawBackground (w\<lparr>state := (state w)\<lparr>bgColor := target_value e, bgImageUrl := None\<rparr>\<rparr>)"

definition updateTextColor :: "event \<Rightarrow> world \<Rightarrow> outcome" where
  "updateTextColor e w = drawText (w\<lparr>state := (state w)\<lparr>textColor := target_value e\<rparr>\<rparr>)"

definition updateWatermarkColor :: "event \<Rightarrow> world \<Rightarrow> outcome" where
  "updateWatermarkColor e w =
     drawWatermark (w\<lparr>state := (state w)\<lparr>watermarkColor := target_value e\<rparr>\<rparr>)"

definition updateSquareImage :: "event \<Rightarrow> world \<Rightarrow> outcome" where
  "updateSquareImage e w =
     (case target_files e of
        [] \<Rightarrow> Returned w
      | squareImage # _ \<Rightarrow> loadImage squareImage SetSquare w)"

definition updateRotation :: "event \<Rightarrow> world \<Rightarrow> outcome" where
  "updateRotation e w =
     drawSquareImage (w\<lparr>state := (state w)\<lparr>rotation := target_valueAsNumber e\<rparr>\<rparr>)"

definition updateText :: "event \<Rightarrow> world \<Rightarrow> outcome" where
  "updateText e w =
     (let st = (state w)\<lparr>text' := (if target_value e \<noteq> [] then target_value e
                                    else defaultConfig_text)\<rparr>;
          st = st\<lparr>hasMultipleLines := includes_newline (text' st)\<rparr>
      in drawText (w\<lparr>state := st\<rparr>))"

definition updateWatermark :: "event \<Rightarrow> world \<Rightarrow> outcome" where
  "updateWatermark e w = drawWatermark (w\<lparr>state := (state w)\<lparr>watermark := target_value e\<rparr>\<rparr>)"

definition updateTextSize :: "event \<Rightarrow> world \<Rightarrow> outcome" where
  "updateTextSize e w =
     drawText (w\<lparr>state := (state w)\<lparr>textSize := target_valueAsNumber e\<rparr>\<rparr>)"

definition updateSquareSize :: "event \<Rightarrow> world \<Rightarrow> outcome" where
  "updateSquareSize e w =
     drawSquareImage (w\<lparr>state := (state w)\<lparr>squareSize := target_valueAsNumber e\<rparr>\<rparr>)"

definition updateBgBlur :: "event \<Rightarrow> world \<Rightarrow> outcome" where
  "updateBgBlur e w =
     drawBackground (w\<lparr>state := (state w)\<lparr>bgBlur := target_valueAsNumber e\<rparr>\<rparr>)"

definition updateIconColor :: "event \<Rightarrow> world \<Rightarrow> outcome" where
  "updateIconColor e w =
     drawSquareImage (w\<lparr>state := (state w)\<lparr>iconColor := target_value e\<rparr>\<rparr>)"

definition updateIconBgSize :: "event \<Rightarrow> world \<Rightarrow> outcome" where
  "updateIconBgSize e w =
     drawSquareImage (w\<lparr>state := (state w)\<lparr>iconBgSize := target_valueAsNumber e\<rparr>\<rparr>)"

definition updateShadowColor :: "event \<Rightarrow> world \<Rightarrow> outcome" where
  "updateShadowColor e w =
     drawSquareImage (w\<lparr>state := (state w)\<lparr>shadowColor := target_value e\<rparr>\<rparr>)"

definition updateShadowStrength :: "event \<Rightarrow> world \<Rightarrow> outcome" where
  "updateShadowStrength e w =
     (let strength = shadowStrength (state w) in
      drawSquareImage (w\<lparr>state := (state w)\<lparr>shadowBlur := strength * 2,
                                              shadowOffsetX := 0,
                                              shadowOffsetY := 0\<rparr>\<rparr>))"

definition updateText3D :: "event \<Rightarrow> world \<Rightarrow> outcome" where
  "updateText3D e w =
     drawText (w\<lparr>state := (state w)\<lparr>text3D := target_valueAsNumber e\<rparr>\<rparr>)"

definition updateFont :: "event \<Rightarrow> world \<Rightarrow> outcome" where
  "updateFont e w =
     and_then (drawText (w\<lparr>state := (state w)\<lparr>selectedFont := Some (target_value e)\<rparr>\<rparr>))
       drawWatermark"

section \<open>The batch update system\<close>

text \<open>
  The table of \<open>updateByType\<close>, keyed by the kind of the update. The names that an
  object literal inherits from \<open>Object.prototype\<close> are not kinds of the application and
  are not in the model's table.
\<close>

definition updateFunctions :: "string \<Rightarrow> (event \<Rightarrow> world \<Rightarrow> outcome) option" where
  "updateFunctions type' =
     (if type' = ''bg'' then Some updateBackgroundImage
      else if type' = ''bgColor'' then Some updateBackgroundColor
      else if type' = ''textColor'' then Some updateTextColor
      else if type' = ''watermarkColor'' then Some updateWatermarkColor
      else if type' = ''square'' then Some updateSquareImage
      else if type' = ''rotation'' then Some updateRotation
      else if type' = ''text'' then Some updateText
      else if type' = ''watermark'' then Some updateWatermark
      else if type' = ''textSize'' then Some updateTextSize
      else if type' = ''squareSize'' then Some updateSquareSize
      else if type' = ''bgBlur'' then Some updateBgBlur
      else if type' = ''iconColor'' then Some updateIconColor
      else if type' = ''iconBgSize'' then Some updateIconBgSize
      else if type' = ''font'' then Some updateFont
      else if type' = ''lineHeight'' then Some (\<lambda>e w. Returned w)
      else if type' = ''text3D'' then Some updateText3D
      else if type' = ''shadowColor'' then Some updateShadowColor
      else if type' = ''shadowStrength'' then Some updateShadowStrength
      else None)"

definition updateByType :: "string \<Rightarrow> event \<Rightarrow> world \<Rightarrow> outcome" where
  "updateByType type' e w =
     (case updateFunctions type' of None \<Rightarrow> Returned w | Some f \<Rightarrow> f e w)"

definition scheduleUpdate :: "string \<Rightarrow> event \<Rightarrow> world \<Rightarrow> world" where
  "scheduleUpdate type' e w0 =
     (let w = w0\<lparr>updateQueue := updateQueue w0 @ [(type', e)]\<rparr> in
      if \<not> updateScheduled w
      then w\<lparr>updateScheduled := True, pending := pending w @ [Frame]\<rparr>
      else w)"

record needsRedraw =
  nr_background :: bool
  nr_text :: bool
  nr_watermark :: bool
  nr_square :: bool

text \<open>The body of the \<open>switch\<close> for one update: the flags and the outcome of the updater.\<close>

definition batch_case ::
  "string \<Rightarrow> event \<Rightarrow> needsRedraw \<Rightarrow> world \<Rightarrow> needsRedraw \<times> outcome" where
  "batch_case type' e nr w =
     (if type' = ''bg'' then (nr\<lparr>nr_background := True\<rparr>, updateBackgroundImage e w)
      else if type' = ''bgColor'' then (nr\<lparr>nr_background := True\<rparr>, updateBackgroundColor e w)
      else if type' \<in> set [''text'', ''textSize'', ''textColor'', ''lineHeight'', ''text3D'']
        then (nr\<lparr>nr_text := True\<rparr>, updateByType type' e w)
      else if type' \<in> set [''watermark'', ''watermarkColor'']
        then (nr\<lparr>nr_watermark := True\<rparr>, updateByType type' e w)
      else if type' \<in> set [''square'', ''rotation'', ''squareSize'', ''shadowStrength'',
                            ''shadowColor'']
        then (nr\<lparr>nr_square := True\<rparr>, updateByType type' e w)
      else (nr, updateByType type' e w))"

text \<open>The \<open>for\<close> loop over the drained queue; an exception ends it.\<close>

fun batch_loop ::
  "(string \<times> event) list \<Rightarrow> needsRedraw \<Rightarrow> world \<Rightarrow> needsRedraw \<times> outcome" where
  "batch_loop [] nr w = (nr, Returned w)"
| "batch_loop ((type', e) # updates) nr w =
     (case batch_case type' e nr w of
        (nr', Returned w') \<Rightarrow> batch_loop updates nr' w'
      | (nr', Threw err w') \<Rightarrow> (nr', Threw err w'))"

definition processBatchUpdates :: "world \<Rightarrow> outcome" where
  "processBatchUpdates w0 =
     (let updates = updateQueue w0;
          w = w0\<lparr>updateQueue := [], updateScheduled := False\<rparr>;
          no = \<lparr>nr_background = False, nr_text = False, nr_watermark = False,
                nr_square = False\<rparr>;
          (nr, r) = batch_loop updates no w
      in and_then r (\<lambda>w.
         and_then (if nr_background nr then drawBackground w else Returned w) (\<lambda>w.
         and_then (if nr_text nr then drawText w else Returned w) (\<lambda>w.
         and_then (if nr_watermark nr then drawWatermark w else Returned w) (\<lambda>w.
         and_then (if nr_square nr then drawSquareImage w else Returned w)
           composeCanvases)))))"

section \<open>\<open>initialize\<close>, \<open>cleanup\<close>, \<open>saveWebp\<close> and \<open>coverAPI.export\<close>\<close>

text \<open>\<open>getContext('2d')\<close> is taken to return the context of the element.\<close>

definition initialize :: "world \<Rightarrow> outcome" where
  "initialize w0 =
     (let w = w0\<lparr>canvas := document_canvasPreview w0\<rparr> in
      case canvas w of
        None \<Rightarrow> Returned (w\<lparr>console := console w @ [''Canvas element not found'']\<rparr>)
      | Some el \<Rightarrow>
          and_then (drawBackground (w\<lparr>ctx := Some el\<rparr>)) (\<lambda>w.
          and_then (drawText w) (\<lambda>w.
          and_then (drawWatermark w) drawSquareImage)))"

definition cleanup :: "world \<Rightarrow> world" where
  "cleanup w =
     w\<lparr>imageCache := LRUCache_clear (imageCache w), updateQueue := [],
       updateScheduled := False\<rparr>"

definition saveWebp :: "world \<Rightarrow> outcome" where
  "saveWebp w =
     (case canvas w of
        None \<Rightarrow> Returned w
      | Some el \<Rightarrow> Returned (w\<lparr>pending := pending w @ [ToBlob el ''image/webp'' 0.9]\<rparr>))"

text \<open>
  The callback of \<open>toBlob\<close> in \<open>saveWebp\<close>; \<open>URL.createObjectURL(null)\<close> throws a
  \<open>TypeError\<close>.
\<close>

definition saveWebp_callback :: "browser \<Rightarrow> blob option \<Rightarrow> world \<Rightarrow> outcome" where
  "saveWebp_callback env b w =
     (case b of
        None \<Rightarrow> Threw TypeError w
      | Some bl \<Rightarrow>
          Returned (w\<lparr>downloads := downloads w @
            [\<lparr>dl_href = createObjectURL env bl,
              dl_name = ''cover-'' @ decimal (now env) @ ''.webp''\<rparr>]\<rparr>))"

text \<open>
  \<open>coverAPI.export(format = 'webp', quality = 0.9)\<close> is an \<open>async\<close> function: its result
  is a promise, settled either way. An omitted argument is \<open>None\<close>.
\<close>

record export_info =
  ex_blob :: blob
  ex_url :: string
  ex_size :: nat
  ex_type :: string

datatype 'a promise = Resolved 'a | Rejected js_error

definition coverAPI_export ::
  "browser \<Rightarrow> string option \<Rightarrow> real option \<Rightarrow> world \<Rightarrow> export_info promise" where
  "coverAPI_export env format' quality' w =
     (let format = (case format' of None \<Rightarrow> ''webp'' | Some f \<Rightarrow> f);
          quality = (case quality' of None \<Rightarrow> 0.9 | Some q \<Rightarrow> q)
      in case document_canvasPreview w of
           None \<Rightarrow> Rejected (Error ''Canvas not found'')
         | Some el \<Rightarrow>
             (case toBlob env (elements w el) (''image/'' @ format) quality of
                Some b \<Rightarrow>
                  Resolved \<lparr>ex_blob = b, ex_url = createObjectURL env b,
                            ex_size = blob_size b, ex_type = blob_type b\<rparr>
              | None \<Rightarrow> Rejected (Error ''Export failed'')))"

section \<open>Callbacks run by the browser\<close>

fun fire :: "browser \<Rightarrow> task \<Rightarrow> world \<Rightarrow> outcome" where
  "fire env Frame w = processBatchUpdates w"
| "fire env (ReaderOnload f cb) w = reader_onload (readAsDataURL env f) f cb w"
| "fire env (BgOnload url) w =
     (case decode env url of None \<Rightarrow> Returned w | Some img \<Rightarrow> drawBackground_onload img w)"
| "fire env (SquareOnload url) w =
     (case decode env url of None \<Rightarrow> Returned w | Some img \<Rightarrow> drawSquareImage_onload img w)"
| "fire env (ToBlob el type' quality) w =
     saveWebp_callback env (toBlob env (elements w el) type' quality) w"

text \<open>The browser runs the pending callback at position \<open>i\<close>.\<close>

definition run_pending :: "browser \<Rightarrow> nat \<Rightarrow> world \<Rightarrow> outcome" where
  "run_pending env i w =
     (if i < length (pending w)
      then fire env (pending w ! i) (w\<lparr>pending := take i (pending w) @ drop (Suc i) (pending w)\<rparr>)
      else Returned w)"

section \<open>Observations and examples used in the properties\<close>

text \<open>The last painting call on a canvas, and the content of the canvas it drew from.\<close>

definition last_paint :: "canvas_el \<Rightarrow> (pen \<times> paint) option" where
  "last_paint cv = (if content cv = [] then None else Some (last (content cv)))"

definition blitted :: "canvas_el \<Rightarrow> (pen \<times> paint) list" where
  "blitted cv =
     (case last_paint cv of
        Some (p, DrawCanvas sw sh c x y w h) \<Rightarrow> c
      | _ \<Rightarrow> [])"

text \<open>
  The rounded rectangle that \<open>drawSquareImage\<close> clips to, in a working canvas of side
  \<open>totalSize\<close>: inset by \<open>borderWidth\<close> on every side.
\<close>

definition inner_clip :: "real \<Rightarrow> path_cmd list" where
  "inner_clip totalSize =
     [MoveTo (radius + borderWidth) borderWidth,
      ArcTo (totalSize - borderWidth) borderWidth (totalSize - borderWidth)
        (radius + borderWidth) radius,
      ArcTo (totalSize - borderWidth) (totalSize - borderWidth)
        (totalSize - radius - borderWidth) (totalSize - borderWidth) radius,
      ArcTo borderWidth (totalSize - borderWidth) borderWidth
        (totalSize - radius - borderWidth) radius,
      ArcTo borderWidth borderWidth (radius + borderWidth) borderWidth radius,
      ClosePath]"

text \<open>A canvas whose context carries no transform and no clip.\<close>

definition plain :: "canvas_el \<Rightarrow> bool" where
  "plain cv = (ctx_transform (pen cv) = [] \<and> ctx_clip (pen cv) = [])"

definition mk_image :: "real \<Rightarrow> real \<Rightarrow> image" where
  "mk_image w h = \<lparr>img_src = ''data:image/png;base64,AAAA'', img_width = w, img_height = h\<rparr>"

text \<open>
  The icon placement as the specification words it: "if image aspect ratio > 1 fit
  height and center horizontally, else fit width and center vertically".
\<close>

definition icon_placement_spec :: "real \<Rightarrow> image \<Rightarrow> real \<times> real \<times> real \<times> real" where
  "icon_placement_spec size' squareImg =
     (let imgAspectRatio = img_width squareImg / img_height squareImg in
      if imgAspectRatio > 1 then
        (let scaledHeight = size'; scaledWidth = size' * imgAspectRatio
         in ((size' - scaledWidth) / 2, 0, scaledWidth, scaledHeight))
      else
        (let scaledWidth = size'; scaledHeight = size' / imgAspectRatio
         in (0, (size' - scaledHeight) / 2, scaledWidth, scaledHeight)))"

text \<open>The module after loading, in a page that has the preview canvas (element 0).\<close>

definition page_world :: world where
  "page_world = initial_world None (\<lambda>_. createCanvas 1000 500) (Some 0) ''sans-serif''"

text \<open>The texts painted on a canvas with their positions, in painting order.\<close>

fun painted_text :: "pen \<times> paint \<Rightarrow> (string \<times> real \<times> real) list" where
  "painted_text (p, FillText s x y) = [(s, x, y)]"
| "painted_text (p, q) = []"

definition texts :: "canvas_el \<Rightarrow> (string \<times> real \<times> real) list" where
  "texts cv = concat (map painted_text (content cv))"

text \<open>The title of the specification's example: three lines \<open>A\<close>, \<open>BB\<close>, \<open>CCC\<close>.\<close>

definition three_lines :: string where
  "three_lines = ''A'' @ [newline] @ ''BB'' @ [newline] @ ''CCC''"

text \<open>A page world whose state has a background image set.\<close>

definition page_world_with_bg :: world where
  "page_world_with_bg =
     page_world\<lparr>state := (state page_world)\<lparr>bgImageUrl := Some ''data:image/png;base64,AAAA''\<rparr>\<rparr>"

definition color_event :: event where
  "color_event = \<lparr>target_value = ''#123456'', target_valueAsNumber = 0, target_files = []\<rparr>"

text \<open>The drawing state that \<open>drawText\<close> paints the lines of the title under.\<close>

definition text_pen :: "world \<Rightarrow> pen" where
  "text_pen w =
     (pen (textCanvas w))
       \<lparr>font := Font ''600'' (textSize (state w)) (font_family w),
        fillStyle := textColor (state w), textAlign := ''center'', textBaseline := ''middle'',
        ctx_shadowColor := (if text3D (state w) > 0 then ''rgba(0, 0, 0, .4)'' else ''transparent''),
        ctx_shadowBlur := (if text3D (state w) > 0 then text3D (state w) * 0.5 else 0),
        ctx_shadowOffsetX := (if text3D (state w) > 0 then text3D (state w) else 0),
        ctx_shadowOffsetY := (if text3D (state w) > 0 then text3D (state w) else 0)\<rparr>"

text \<open>
  The stack of the four layers as the specification orders it: each layer surface drawn
  whole at the origin, background first, then text, icon and watermark.
\<close>

definition layer_paint :: "canvas_el \<Rightarrow> paint" where
  "layer_paint cv = DrawCanvas (width cv) (height cv) (content cv) 0 0 (width cv) (height cv)"

definition composite :: "canvas_el \<Rightarrow> canvas_el \<Rightarrow> canvas_el \<Rightarrow> canvas_el \<Rightarrow> paint list" where
  "composite background title icon mark =
     [layer_paint background, layer_paint title, layer_paint icon, layer_paint mark]"

text \<open>What the output surface holds: the content of the element \<open>ctx\<close> draws on.\<close>

definition shown :: "world \<Rightarrow> (pen \<times> paint) list" where
  "shown w = (case ctx w of None \<Rightarrow> [] | Some c \<Rightarrow> content (elements w c))"

text \<open>
  The output surface is acquired: \<open>canvas\<close> and \<open>ctx\<close> name the same element, as
  \<open>initialize\<close> sets them, and its context carries no transform and no clip.
\<close>

definition acquired :: "world \<Rightarrow> bool" where
  "acquired w =
     (case ctx w of
        None \<Rightarrow> False
      | Some c \<Rightarrow> canvas w = Some c \<and> plain (elements w c))"

datatype layer = Background | Text | Icon | Watermark

fun layer_canvas :: "layer \<Rightarrow> world \<Rightarrow> canvas_el" where
  "layer_canvas Background w = bgCanvas w"
| "layer_canvas Text w = textCanvas w"
| "layer_canvas Icon w = squareCanvas w"
| "layer_canvas Watermark w = watermarkCanvas w"

fun redraw :: "layer \<Rightarrow> world \<Rightarrow> outcome" where
  "redraw Background w = drawBackground w"
| "redraw Text w = drawText w"
| "redraw Icon w = drawSquareImage w"
| "redraw Watermark w = drawWatermark w"

text \<open>Redraws issued one after the other.\<close>

fun redraws :: "layer list \<Rightarrow> world \<Rightarrow> outcome" where
  "redraws [] w = Returned w"
| "redraws (l # ls) w = and_then (redraw l w) (redraws ls)"

text \<open>
  The redraws complete within the call: no image is set, so no decoding is awaited, and
  no layer context carries a transform or a clip.
\<close>

definition synchronous :: "world \<Rightarrow> bool" where
  "synchronous w =
     (\<not> truthy (bgImageUrl (state w)) \<and> \<not> truthy (squareImageUrl (state w))
      \<and> plain (bgCanvas w) \<and> plain (textCanvas w) \<and> plain (squareCanvas w)
      \<and> plain (watermarkCanvas w))"

text \<open>The page world after \<open>initialize\<close>.\<close>

definition ready_world :: world where
  "ready_world = world_of (initialize page_world)"

definition out_pen :: "world \<Rightarrow> pen" where
  "out_pen w = (case ctx w of None \<Rightarrow> default_pen | Some c \<Rightarrow> pen (elements w c))"

text \<open>The four layer surfaces and the output surface.\<close>

definition surfaces ::
  "world \<Rightarrow> canvas_el \<times> canvas_el \<times> canvas_el \<times> canvas_el \<times> (pen \<times> paint) list" where
  "surfaces w = (bgCanvas w, textCanvas w, squareCanvas w, watermarkCanvas w, shown w)"

text \<open>A page without the preview canvas, and a browser whose encoder yields no blob.\<close>

definition bare_world :: world where
  "bare_world = initial_world None (\<lambda>_. createCanvas 300 150) None ''sans-serif''"

definition null_browser :: browser where
  "null_browser =
     \<lparr>readAsDataURL = (\<lambda>f. ''data:,''), decode = (\<lambda>url. None), toBlob = (\<lambda>cv t q. None),
      createObjectURL = (\<lambda>b. ''blob:0''), now = 0\<rparr>"

text \<open>Two color inputs, and the two updates of the text color they cause, queued.\<close>

definition red_event :: event where
  "red_event = \<lparr>target_value = ''#ff0000'', target_valueAsNumber = 0, target_files = []\<rparr>"

definition blue_event :: event where
  "blue_event = \<lparr>target_value = ''#0000ff'', target_valueAsNumber = 0, target_files = []\<rparr>"

definition two_color_updates :: world where
  "two_color_updates =
     scheduleUpdate ''textColor'' blue_event (scheduleUpdate ''textColor'' red_event ready_world)"

text \<open>The calls logged while \<open>r\<close> ran from the world \<open>w\<close>.\<close>

definition new_calls :: "world \<Rightarrow> outcome \<Rightarrow> call list" where
  "new_calls w r = drop (length (calls w)) (calls (world_of r))"

text \<open>The kinds of update whose updater ends in \<open>drawText\<close>.\<close>

definition text_kinds :: "string list" where
  "text_kinds = [''text'', ''textSize'', ''textColor'', ''text3D'']"

text \<open>Updates scheduled one after the other.\<close>

definition schedule_all :: "(string \<times> event) list \<Rightarrow> world \<Rightarrow> world" where
  "schedule_all us w = foldl (\<lambda>w (type', e). scheduleUpdate type' e w) w us"

text \<open>The four layer canvases carry no transform and no clip.\<close>

definition layers_plain :: "world \<Rightarrow> bool" where
  "layers_plain w =
     (plain (bgCanvas w) \<and> plain (textCanvas w) \<and> plain (squareCanvas w)
      \<and> plain (watermarkCanvas w))"

text \<open>The four layer surfaces, without the output surface.\<close>

definition layer_surfaces :: "world \<Rightarrow> canvas_el \<times> canvas_el \<times> canvas_el \<times> canvas_el" where
  "layer_surfaces w = (bgCanvas w, textCanvas w, squareCanvas w, watermarkCanvas w)"

text \<open>
  The image loads that a redraw of the layer starts (\<open>img.onload = ...; img.src = ...\<close>);
  a redraw that starts one returns without calling \<open>composeCanvases\<close>.
\<close>

fun loads :: "layer \<Rightarrow> world \<Rightarrow> task list" where
  "loads Background w =
     (if truthy (bgImageUrl (state w)) then [BgOnload (string_of (bgImageUrl (state w)))] else [])"
| "loads Icon w =
     (if truthy (squareImageUrl (state w))
      then [SquareOnload (string_of (squareImageUrl (state w)))] else [])"
| "loads Text w = []"
| "loads Watermark w = []"

text \<open>
  The browser completes \<open>n\<close> callbacks, each time the one at position \<open>i\<close> of \<open>pending\<close>.
  \<open>settled env w0 w\<close>: it completes, oldest first, the callbacks queued since the world
  \<open>w0\<close>.
\<close>

fun settle :: "browser \<Rightarrow> nat \<Rightarrow> nat \<Rightarrow> world \<Rightarrow> outcome" where
  "settle env i 0 w = Returned w"
| "settle env i (Suc n) w = and_then (run_pending env i w) (settle env i n)"

definition settled :: "browser \<Rightarrow> world \<Rightarrow> world \<Rightarrow> outcome" where
  "settled env w0 w =
     settle env (length (pending w0)) (length (pending w) - length (pending w0)) w"

text \<open>The images that the state names decode.\<close>

definition decodes :: "browser \<Rightarrow> world \<Rightarrow> bool" where
  "decodes env w =
     ((truthy (bgImageUrl (state w)) \<longrightarrow>
         decode env (string_of (bgImageUrl (state w))) \<noteq> None)
      \<and> (truthy (squareImageUrl (state w)) \<longrightarrow>
         decode env (string_of (squareImageUrl (state w))) \<noteq> None))"

text \<open>
  The page world after \<open>initialize\<close> with a background image then set in the state, and a
  browser that decodes every URL to an image of 2000 by 500.
\<close>

definition loading_world :: world where
  "loading_world =
     ready_world\<lparr>state := (state ready_world)\<lparr>bgImageUrl := Some ''data:image/png;base64,AAAA''\<rparr>\<rparr>"

definition photo_browser :: browser where
  "photo_browser = null_browser\<lparr>decode := (\<lambda>url. Some (mk_image 2000 500))\<rparr>"

text \<open>
  What can happen to the module: another module writes the exported \<open>state\<close>, or calls
  one of the exported functions (an updater is named by its key in the table of
  \<open>updateByType\<close>), or the browser runs a pending callback. An exception ends the call;
  the page goes on from the world it left.
\<close>

datatype action =
    SetState "state \<Rightarrow> state"
  | Schedule string event
  | Update string event
  | Redraw layer
  | Compose
  | SaveWebp
  | Initialize
  | Cleanup
  | RunPending nat

fun perform :: "browser \<Rightarrow> action \<Rightarrow> world \<Rightarrow> outcome" where
  "perform env (SetState f) w = Returned (w\<lparr>state := f (state w)\<rparr>)"
| "perform env (Schedule type' e) w = Returned (scheduleUpdate type' e w)"
| "perform env (Update type' e) w = updateByType type' e w"
| "perform env (Redraw l) w = redraw l w"
| "perform env Compose w = composeCanvases w"
| "perform env SaveWebp w = saveWebp w"
| "perform env Initialize w = initialize w"
| "perform env Cleanup w = Returned (cleanup w)"
| "perform env (RunPending i) w = run_pending env i w"

fun perform_all :: "browser \<Rightarrow> action list \<Rightarrow> world \<Rightarrow> world" where
  "perform_all env [] w = w"
| "perform_all env (a # as) w = perform_all env as (world_of (perform env a w))"

text \<open>
  The canvas elements of the document carry no transform and no clip, and whenever the
  module holds the output canvas it holds the context of that canvas.
\<close>

definition output_ok :: "world \<Rightarrow> bool" where
  "output_ok w =
     ((\<forall>c. plain (elements w c)) \<and> (\<forall>c. canvas w = Some c \<longrightarrow> ctx w = Some c))"

chapter \<open>Properties\<close>

section \<open>The image cache\<close>

lemma Map_set_absent: "\<not> Map_has m k \<Longrightarrow> Map_set m k v = m @ [(k, v)]"
  by (induction m) (auto simp: Map_has_def)

lemma Map_has_keys: "Map_has m k \<longleftrightarrow> k \<in> set (map fst m)"
  by (induction m) (auto simp: Map_has_def)

lemma Map_delete_has: "\<not> Map_has (Map_delete m k) k"
  by (auto simp: Map_has_keys Map_delete_def)

lemma Map_delete_keys: "map fst (Map_delete m k) = removeAll k (map fst m)"
  by (induction m) (auto simp: Map_delete_def)

lemma Map_delete_absent: "\<not> Map_has m k \<Longrightarrow> Map_delete m k = m"
  by (induction m) (auto simp: Map_delete_def Map_has_keys)

lemma Map_delete_length:
  "distinct (map fst m) \<Longrightarrow> Map_has m k \<Longrightarrow> Suc (length (Map_delete m k)) = length m"
  by (induction m) (auto simp: Map_delete_def Map_has_keys Map_delete_absent[unfolded Map_delete_def Map_has_keys] )

lemma Map_delete_first:
  "distinct (map fst (p # ps)) \<Longrightarrow> Map_delete (p # ps) (fst p) = ps"
  using Map_delete_absent[of ps "fst p"] by (auto simp: Map_delete_def Map_has_keys)

lemma LRUCache_set_cache:
  "cache (LRUCache_set c k v) =
     (if Map_has (cache c) k then Map_delete (cache c) k
      else if Map_size (cache c) \<ge> maxSize c then
        (case Map_first_key (cache c) of None \<Rightarrow> cache c | Some f \<Rightarrow> Map_delete (cache c) f)
      else cache c) @ [(k, v)]"
  by (auto simp: LRUCache_set_def Let_def Map_set_absent Map_delete_has Map_first_key_def
      Map_has_keys Map_delete_keys split: list.splits)

lemma LRUCache_set_maxSize: "maxSize (LRUCache_set c k v) = maxSize c"
  by (simp add: LRUCache_set_def Let_def)

lemma LRUCache_set_inv:
  assumes "cache_inv c" and "1 \<le> maxSize c"
  shows "cache_inv (LRUCache_set c k v)"
proof -
  have d: "distinct (map fst (cache c))" and s: "int (length (cache c)) \<le> maxSize c"
    using assms(1) by (simp_all add: cache_inv_def Map_size_def)
  show ?thesis
  proof (cases "Map_has (cache c) k")
    case True
    with d s Map_delete_length[of "cache c" k] show ?thesis
      by (auto simp: cache_inv_def LRUCache_set_cache LRUCache_set_maxSize Map_size_def
          Map_delete_keys distinct_removeAll)
  next
    case False
    show ?thesis
    proof (cases "cache c")
      case Nil
      with assms(2) show ?thesis
        by (simp add: cache_inv_def LRUCache_set_cache LRUCache_set_maxSize Map_size_def
            Map_has_def Map_first_key_def)
    next
      case (Cons p ps)
      with False d s Map_delete_first[of p ps] show ?thesis
        by (auto simp: cache_inv_def LRUCache_set_cache LRUCache_set_maxSize Map_size_def
            Map_first_key_def Map_has_keys)
    qed
  qed
qed

lemma LRUCache_get_present:
  assumes "Map_get (cache c) k = Some v"
  shows "LRUCache_get c k = (Some v, c\<lparr>cache := Map_delete (cache c) k @ [(k, v)]\<rparr>)"
  using assms Map_set_absent[OF Map_delete_has, of "cache c" k v]
  by (simp add: LRUCache_get_def Map_has_def Map_get_def)

lemma LRUCache_get_absent: "\<not> Map_has (cache c) k \<Longrightarrow> LRUCache_get c k = (None, c)"
  by (simp add: LRUCache_get_def)

lemma LRUCache_get_inv:
  assumes "cache_inv c"
  shows "cache_inv (snd (LRUCache_get c k))"
proof (cases "Map_get (cache c) k")
  case None
  then show ?thesis using assms by (simp add: LRUCache_get_def Map_has_def Map_get_def)
next
  case (Some v)
  then have h: "Map_has (cache c) k" by (simp add: Map_has_def Map_get_def)
  from assms have d: "distinct (map fst (cache c))" by (simp add: cache_inv_def)
  from Map_delete_length[OF d h] assms Some show ?thesis
    by (auto simp: LRUCache_get_present cache_inv_def Map_size_def Map_delete_keys distinct_removeAll)
qed

lemma LRUCache_get_maxSize: "maxSize (snd (LRUCache_get c k)) = maxSize c"
  by (simp add: LRUCache_get_def split: option.splits)

lemma cache_step_inv:
  assumes "cache_inv c" and "1 \<le> maxSize c"
  shows "cache_inv (cache_step c x) \<and> maxSize (cache_step c x) = maxSize c"
proof (cases x)
  case (Get k)
  then show ?thesis using assms by (simp add: LRUCache_get_inv LRUCache_get_maxSize)
next
  case (Set k v)
  then show ?thesis using assms by (simp add: LRUCache_set_inv LRUCache_set_maxSize)
next
  case Clear
  then show ?thesis using assms by (simp add: LRUCache_clear_def cache_inv_def Map_size_def)
qed

lemma cache_run_inv:
  "cache_inv c \<Longrightarrow> 1 \<le> maxSize c \<Longrightarrow> cache_inv (cache_run c xs) \<and> maxSize (cache_run c xs) = maxSize c"
  unfolding cache_run_def
  by (induction xs arbitrary: c) (simp_all add: cache_step_inv)

lemma LRUCache_set_evicts_first:
  assumes "distinct (map fst (cache c))" and "\<not> Map_has (cache c) k"
    and "Map_size (cache c) \<ge> maxSize c" and "cache c \<noteq> []"
  shows "cache (LRUCache_set c k v) = tl (cache c) @ [(k, v)]"
proof -
  obtain p ps where c: "cache c = p # ps" using assms(4) by (cases "cache c") auto
  with assms(1) Map_delete_first[of p ps] have "Map_delete (cache c) (fst p) = ps" by simp
  with c assms(2,3) show ?thesis
    by (simp add: LRUCache_set_cache Map_first_key_def)
qed

lemma LRUCache_get_then_set_keeps:
  assumes d: "distinct (map fst (cache c))" and g: "Map_get (cache c) k = Some v"
    and n: "\<not> Map_has (cache c) k'" and big: "Map_size (cache c) \<ge> maxSize c \<longrightarrow> 2 \<le> length (cache c)"
  shows "Map_has (cache (LRUCache_set (snd (LRUCache_get c k)) k' v')) k"
proof -
  let ?c1 = "snd (LRUCache_get c k)"
  have h: "Map_has (cache c) k" using g by (simp add: Map_has_def Map_get_def)
  have c1: "cache ?c1 = Map_delete (cache c) k @ [(k, v)]" and m1: "maxSize ?c1 = maxSize c"
    using g by (simp_all add: LRUCache_get_present)
  have len: "Suc (length (Map_delete (cache c) k)) = length (cache c)"
    by (rule Map_delete_length[OF d h])
  have kk: "k' \<noteq> k" using h n by auto
  have n1: "\<not> Map_has (cache ?c1) k'"
    using n kk by (auto simp: c1 Map_has_keys Map_delete_keys)
  show ?thesis
  proof (cases "Map_size (cache ?c1) \<ge> maxSize ?c1")
    case False
    with n1 show ?thesis by (simp add: LRUCache_set_cache c1 Map_has_keys)
  next
    case True
    then have "Map_size (cache c) \<ge> maxSize c" using len by (simp add: c1 m1 Map_size_def)
    with big len obtain q qs where q: "Map_delete (cache c) k = q # qs"
      by (cases "Map_delete (cache c) k") auto
    have "fst q \<in> set (map fst (Map_delete (cache c) k))" by (simp add: q)
    then have qk: "fst q \<noteq> k" by (simp add: Map_delete_keys)
    from True n1 qk show ?thesis
      by (simp add: LRUCache_set_cache c1 q Map_first_key_def Map_has_keys Map_delete_keys)
  qed
qed

lemma foldl_touch_fst: "fst (foldl touch_step (c, touched, t) cs) = cache_run c cs"
proof (induction cs arbitrary: c touched t)
  case Nil
  then show ?case by (simp add: cache_run_def)
next
  case (Cons a cs)
  then show ?case by (cases a) (simp_all add: cache_run_def)
qed

lemma sorted_wrt_delete:
  "sorted_wrt (<) (map (\<lambda>p. (f::'k \<Rightarrow> nat) (fst p)) m) \<Longrightarrow>
   sorted_wrt (<) (map (\<lambda>p. f (fst p)) (Map_delete m k))"
  by (induction m) (auto simp: Map_delete_def)

lemma touch_append:
  assumes "sorted_wrt (<) (map (\<lambda>p. touched (fst p)) m)"
    and "\<forall>p \<in> set m. touched (fst p) < t"
    and "\<forall>p \<in> set m. fst p \<noteq> k"
  shows "sorted_wrt (<) (map (\<lambda>p. (touched(k := t)) (fst p)) (m @ [(k, v)]))"
proof -
  have eq: "map (\<lambda>p. (touched(k := t)) (fst p)) m = map (\<lambda>p. touched (fst p)) m"
    by (rule map_cong) (use assms(3) in auto)
  show ?thesis
    unfolding map_append sorted_wrt_append eq using assms(1,2) by auto
qed

lemma touch_inv_append:
  assumes "sorted_wrt (<) (map (\<lambda>p. touched (fst p)) m)"
    and "\<forall>p \<in> set m. touched (fst p) < t"
    and "\<forall>p \<in> set m. fst p \<noteq> k"
  shows "touch_inv (cc\<lparr>cache := m @ [(k, v)]\<rparr>, touched(k := t), Suc t)"
  using touch_append[OF assms, of v] assms(2,3) by (auto simp: touch_inv_def less_Suc_eq)

lemma touch_step_inv:
  assumes "touch_inv s"
  shows "touch_inv (touch_step s a)"
proof -
  obtain c touched t where s: "s = (c, touched, t)" by (cases s)
  have so: "sorted_wrt (<) (map (\<lambda>p. touched (fst p)) (cache c))"
    and lt: "\<forall>p \<in> set (cache c). touched (fst p) < t"
    using assms(1) by (simp_all add: touch_inv_def s)
  have del: "sorted_wrt (<) (map (\<lambda>p. touched (fst p)) (Map_delete (cache c) k))"
    "\<forall>p \<in> set (Map_delete (cache c) k). touched (fst p) < t"
    "\<forall>p \<in> set (Map_delete (cache c) k). fst p \<noteq> k" for k
    using so lt by (auto simp: sorted_wrt_delete) (auto simp: Map_delete_def)
  show ?thesis
  proof (cases a)
    case (Get k)
    show ?thesis
    proof (cases "Map_get (cache c) k")
      case None
      then have "\<not> Map_has (cache c) k" by (simp add: Map_has_def Map_get_def)
      then show ?thesis
        using so lt by (auto simp: s Get touch_inv_def LRUCache_get_absent less_Suc_eq)
    next
      case (Some v)
      then have h: "Map_has (cache c) k" by (simp add: Map_has_def Map_get_def)
      show ?thesis
        using touch_inv_append[OF del, where cc = c and v = v] h
        by (simp add: s Get LRUCache_get_present[OF Some])
    qed
  next
    case (Set k v)
    define m where "m =
      (if Map_has (cache c) k then Map_delete (cache c) k
       else if Map_size (cache c) \<ge> maxSize c then
         (case Map_first_key (cache c) of None \<Rightarrow> cache c | Some f \<Rightarrow> Map_delete (cache c) f)
       else cache c)"
    have c': "LRUCache_set c k v = c\<lparr>cache := m @ [(k, v)]\<rparr>"
      using LRUCache_set_cache[of c k v] by (simp add: m_def LRUCache_set_def Let_def)
    have nk: "\<not> Map_has (cache c) k \<Longrightarrow> \<forall>p \<in> set (cache c). fst p \<noteq> k"
      by (auto simp: Map_has_keys)
    have k: "\<forall>p \<in> set m. fst p \<noteq> k"
      using del(3)[of k] nk by (auto simp: m_def Map_delete_def split: option.splits)
    have sm: "sorted_wrt (<) (map (\<lambda>p. touched (fst p)) m)"
      using so del(1) by (auto simp: m_def split: option.splits)
    have lm: "\<forall>p \<in> set m. touched (fst p) < t"
      using lt del(2) by (auto simp: m_def split: option.splits)
    show ?thesis
      using touch_inv_append[OF sm lm k, where cc = c and v = v] by (simp add: s Set c')
  next
    case Clear
    then show ?thesis by (simp add: s touch_inv_def LRUCache_clear_def)
  qed
qed

lemma touch_run_inv: "touch_inv s \<Longrightarrow> touch_inv (foldl touch_step s cs)"
  by (induction cs arbitrary: s) (simp_all add: touch_step_inv)

lemma victim_least_recently_touched:
  assumes "cache (cache_run new_imageCache cs) = p # ps"
  shows "\<forall>q \<in> set ps. last_touch cs (fst p) < last_touch cs (fst q)"
proof -
  define s where "s = foldl touch_step (new_imageCache, (\<lambda>k. 0::nat), 1::nat) cs"
  have "touch_inv (new_imageCache, (\<lambda>k. 0::nat), 1::nat)"
    by (simp add: touch_inv_def new_imageCache_def LRUCache_new_def)
  then have i: "touch_inv s" unfolding s_def by (rule touch_run_inv)
  have f: "fst s = cache_run new_imageCache cs" by (simp add: s_def foldl_touch_fst)
  obtain c' touched t where st: "s = (c', touched, t)" by (cases s)
  have lt: "last_touch cs = touched"
    by (metis s_def st fst_conv snd_conv last_touch_def)
  from i f st assms have "sorted_wrt (<) (map (\<lambda>p. touched (fst p)) (p # ps))"
    by (simp add: touch_inv_def)
  then show ?thesis by (simp add: lt)
qed

text \<open>
  Claim C4. In every state the image cache reaches from its creation by calls of
  \<open>get\<close>, \<open>set\<close> and \<open>clear\<close>, it holds at most 30 entries. There, \<open>set\<close> of a
  new key \<open>k\<close> on a full cache removes exactly the first entry of the insertion order
  and appends \<open>k\<close>, and the key removed was last touched (set, or found by \<open>get\<close>)
  before every key that stays; \<open>get\<close> of a present key \<open>k0\<close> returns its value and
  moves \<open>k0\<close> to the end of the order, so that \<open>k0\<close> is still present after the next
  \<open>set\<close> of a new key; \<open>get\<close> of an absent key returns \<open>null\<close> and changes nothing;
  \<open>clear\<close> leaves the cache empty.
\<close>

theorem image_cache_lru:
  "let c = cache_run new_imageCache cs in
     Map_size (cache c) \<le> 30
   \<and> (\<not> Map_has (cache c) k \<and> Map_size (cache c) = 30 \<longrightarrow>
        cache (LRUCache_set c k v) = tl (cache c) @ [(k, v)]
        \<and> (\<forall>q \<in> set (tl (cache c)).
              last_touch cs (fst (hd (cache c))) < last_touch cs (fst q)))
   \<and> (Map_get (cache c) k0 = Some v0 \<longrightarrow>
        LRUCache_get c k0 = (Some v0, c\<lparr>cache := Map_delete (cache c) k0 @ [(k0, v0)]\<rparr>)
        \<and> (\<not> Map_has (cache c) k \<longrightarrow>
             Map_has (cache (LRUCache_set (snd (LRUCache_get c k0)) k v)) k0))
   \<and> (\<not> Map_has (cache c) k \<longrightarrow> LRUCache_get c k = (None, c))
   \<and> cache (LRUCache_clear c) = []"
proof -
  define c where "c = cache_run new_imageCache cs"
  have i0: "cache_inv new_imageCache" and m0: "1 \<le> maxSize new_imageCache"
    by (simp_all add: new_imageCache_def LRUCache_new_def cache_inv_def Map_size_def)
  from cache_run_inv[OF i0 m0, of cs]
  have inv: "cache_inv c" and m: "maxSize c = 30"
    by (simp_all add: c_def new_imageCache_def LRUCache_new_def)
  then have d: "distinct (map fst (cache c))" and s: "Map_size (cache c) \<le> 30"
    by (simp_all add: cache_inv_def)
  have evict: "cache (LRUCache_set c k v) = tl (cache c) @ [(k, v)]
      \<and> (\<forall>q \<in> set (tl (cache c)). last_touch cs (fst (hd (cache c))) < last_touch cs (fst q))"
    if "\<not> Map_has (cache c) k" "Map_size (cache c) = 30"
  proof -
    from that(2) obtain p ps where ne: "cache c = p # ps"
      by (cases "cache c") (auto simp: Map_size_def)
    then have "cache c \<noteq> []" by simp
    with that d m have "cache (LRUCache_set c k v) = tl (cache c) @ [(k, v)]"
      by (simp add: LRUCache_set_evicts_first)
    moreover have "\<forall>q \<in> set ps. last_touch cs (fst p) < last_touch cs (fst q)"
      by (rule victim_least_recently_touched) (simp add: ne[unfolded c_def])
    ultimately show ?thesis by (simp add: ne)
  qed
  have keep: "Map_has (cache (LRUCache_set (snd (LRUCache_get c k0)) k v)) k0"
    if "Map_get (cache c) k0 = Some v0" "\<not> Map_has (cache c) k"
  proof (rule LRUCache_get_then_set_keeps[OF d that])
    show "maxSize c \<le> Map_size (cache c) \<longrightarrow> 2 \<le> length (cache c)"
      using m by (simp add: Map_size_def)
  qed
  show ?thesis
    unfolding c_def[symmetric] Let_def
    using s evict keep by (simp add: LRUCache_get_present LRUCache_get_absent LRUCache_clear_def)
qed

text \<open>
  The theorem at a full cache: after thirty keys are stored, \<open>x\<close> is the oldest; storing
  a new key evicts it, unless it was read in between.
\<close>

theorem image_cache_lru_witness:
  "let c = cache_run new_imageCache fill30 in
     Map_size (cache c) = 30 \<and> \<not> Map_has (cache c) ''new''
   \<and> Map_get (cache c) ''x'' = Some ''data''
   \<and> hd (cache c) = (''x'', ''data'')
   \<and> cache (LRUCache_set c ''new'' ''d'') = tl (cache c) @ [(''new'', ''d'')]
   \<and> last_touch fill30 ''x'' < last_touch fill30 ''xx''
   \<and> \<not> Map_has (cache (LRUCache_set c ''new'' ''d'')) ''x''
   \<and> Map_has (cache (LRUCache_set (snd (LRUCache_get c ''x'')) ''new'' ''d'')) ''x''
   \<and> LRUCache_get c ''new'' = (None, c)"
proof -
  define c where "c = cache_run new_imageCache fill30"
  have h1: "Map_size (cache c) = 30" unfolding c_def by code_simp
  have h2: "\<not> Map_has (cache c) ''new''" unfolding c_def by code_simp
  have h3: "Map_get (cache c) ''x'' = Some ''data''" unfolding c_def by code_simp
  have h4: "\<not> Map_has (cache (LRUCache_set c ''new'' ''d'')) ''x''" unfolding c_def by code_simp
  have h5: "hd (cache c) = (''x'', ''data'')" unfolding c_def by code_simp
  have h6: "(''xx'', ''data'') \<in> set (tl (cache c))" unfolding c_def by code_simp
  note T = image_cache_lru[of fill30 "''new''" "''d''" "''x''" "''data''",
      unfolded Let_def c_def[symmetric]]
  have a: "cache (LRUCache_set c ''new'' ''d'') = tl (cache c) @ [(''new'', ''d'')]"
    using T h1 h2 by blast
  have t: "\<forall>q \<in> set (tl (cache c)). last_touch fill30 (fst (hd (cache c))) < last_touch fill30 (fst q)"
    using T h1 h2 by blast
  have t': "last_touch fill30 ''x'' < last_touch fill30 ''xx''"
    using t h5 h6 by fastforce
  have b: "Map_has (cache (LRUCache_set (snd (LRUCache_get c ''x'')) ''new'' ''d'')) ''x''"
    using T h2 h3 by blast
  have e: "LRUCache_get c ''new'' = (None, c)"
    using T h2 by blast
  show ?thesis
    unfolding c_def[symmetric] Let_def
    using h1 h2 h3 h4 h5 a b e t' by blast
qed

section \<open>What the redraws leave unchanged\<close>

lemmas canvas_ops = put_def clearRect_def fillRect_def fillText_def drawImage_def drawCanvas_def
  drawCanvas_at_def set_pen_def save_def restore_def translate_def rotate_ctx_def beginPath_def
  moveTo_def arcTo_def closePath_def fill_path_def clip_def createCanvas_def

lemma composeCanvases_state [simp]: "state (world_of (composeCanvases w)) = state w"
  by (simp add: composeCanvases_def Let_def split: option.splits)

lemma composeCanvases_bgCanvas [simp]: "bgCanvas (world_of (composeCanvases w)) = bgCanvas w"
  by (simp add: composeCanvases_def Let_def split: option.splits)

lemma composeCanvases_textCanvas [simp]: "textCanvas (world_of (composeCanvases w)) = textCanvas w"
  by (simp add: composeCanvases_def Let_def split: option.splits)

lemma composeCanvases_squareCanvas [simp]:
  "squareCanvas (world_of (composeCanvases w)) = squareCanvas w"
  by (simp add: composeCanvases_def Let_def split: option.splits)

lemma composeCanvases_watermarkCanvas [simp]:
  "watermarkCanvas (world_of (composeCanvases w)) = watermarkCanvas w"
  by (simp add: composeCanvases_def Let_def split: option.splits)

lemma composeCanvases_pending [simp]: "pending (world_of (composeCanvases w)) = pending w"
  by (simp add: composeCanvases_def Let_def split: option.splits)

lemma drawSquareImage_state [simp]: "state (world_of (drawSquareImage w)) = state w"
  by (simp add: drawSquareImage_def Let_def)

lemma drawText_state [simp]: "state (world_of (drawText w)) = state w"
  by (simp add: drawText_def Let_def)

lemma drawBackground_state [simp]: "state (world_of (drawBackground w)) = state w"
  by (simp add: drawBackground_def Let_def)

section \<open>The icon layer\<close>

lemma drawSquareImage_onload_image:
  assumes "icon_placement (squareSize (state w) - 2 * borderWidth) im = (ox, oy, sw, sh)"
  shows "last (blitted (squareCanvas (world_of (drawSquareImage_onload im w)))) =
     (default_pen\<lparr>fillStyle := (if 0 < iconBgSize (state w) then iconColor (state w)
                                 else fillStyle default_pen),
                  ctx_clip := [inner_clip (squareSize (state w))]\<rparr>,
      DrawImage im (borderWidth + ox) (borderWidth + oy) sw sh)"
  using assms
  by (simp add: drawSquareImage_onload_def Let_def last_paint_def blitted_def canvas_ops
      inner_clip_def default_pen_def)

text \<open>
  Claim C7. In an inner box of side 200 (\<open>squareSize\<close> 240, border 20), a 400 by 200
  image is scaled to 200 by 100 and placed with a margin of 50 above and below; a 200 by
  400 image is scaled to 100 by 200 and placed with a margin of 50 left and right. The
  image is drawn at these positions, shifted by the border, in the working canvas that
  \<open>drawSquareImage\<close> then draws on the icon layer.
\<close>

theorem icon_aspect_fit_examples:
  "(let (ox, oy, sw, sh) = icon_placement 200 (mk_image 400 200) in
      sw = 200 \<and> sh = 100 \<and> ox = 0 \<and> oy = 50 \<and> 200 - (oy + sh) = 50)
   \<and> (let (ox, oy, sw, sh) = icon_placement 200 (mk_image 200 400) in
      sw = 100 \<and> sh = 200 \<and> oy = 0 \<and> ox = 50 \<and> 200 - (ox + sw) = 50)
   \<and> snd (last (blitted (squareCanvas (world_of
        (drawSquareImage_onload (mk_image 400 200) (w\<lparr>state := (state w)\<lparr>squareSize := 240\<rparr>\<rparr>))))))
      = DrawImage (mk_image 400 200) 20 70 200 100
   \<and> snd (last (blitted (squareCanvas (world_of
        (drawSquareImage_onload (mk_image 200 400) (w\<lparr>state := (state w)\<lparr>squareSize := 240\<rparr>\<rparr>))))))
      = DrawImage (mk_image 200 400) 70 20 100 200"
proof -
  have a: "icon_placement 200 (mk_image 400 200) = (0, 50, 200, 100)"
    by (simp add: icon_placement_def mk_image_def Let_def)
  have b: "icon_placement 200 (mk_image 200 400) = (50, 0, 100, 200)"
    by (simp add: icon_placement_def mk_image_def Let_def)
  let ?w = "w\<lparr>state := (state w)\<lparr>squareSize := 240\<rparr>\<rparr>"
  have s: "squareSize (state ?w) - 2 * borderWidth = 200" by (simp add: borderWidth_def)
  have c: "snd (last (blitted (squareCanvas (world_of (drawSquareImage_onload (mk_image 400 200) ?w)))))
      = DrawImage (mk_image 400 200) 20 70 200 100"
    using drawSquareImage_onload_image[of ?w "mk_image 400 200" 0 50 200 100] a s
    by (simp add: borderWidth_def)
  have d: "snd (last (blitted (squareCanvas (world_of (drawSquareImage_onload (mk_image 200 400) ?w)))))
      = DrawImage (mk_image 200 400) 70 20 100 200"
    using drawSquareImage_onload_image[of ?w "mk_image 200 400" 50 0 100 200] b s
    by (simp add: borderWidth_def)
  show ?thesis using c d by (simp add: a b)
qed

text \<open>
  Claim C2, as stated, fails. For an image of aspect ratio 2 the claim has the image fit
  to the height of the square (400 by 200 in a square of side 200, overflowing to the
  left and right); the source fits it to the width (200 by 100) and centers it
  vertically.
\<close>

theorem icon_fit_as_specified_counterexample:
  "icon_placement 200 (mk_image 400 200) = (0, 50, 200, 100)
   \<and> icon_placement_spec 200 (mk_image 400 200) = (- 100, 0, 400, 200)
   \<and> icon_placement 200 (mk_image 400 200) \<noteq> icon_placement_spec 200 (mk_image 400 200)"
  by (simp add: icon_placement_def icon_placement_spec_def mk_image_def Let_def)

lemma icon_placement_wide:
  assumes "0 < img_width im" "0 < img_height im" "0 < s" "img_width im / img_height im > 1"
  shows "icon_placement s im =
     (0, (s - s * img_height im / img_width im) / 2, s, s * img_height im / img_width im)"
  using assms by (simp add: icon_placement_def Let_def)

lemma icon_placement_tall:
  assumes "0 < img_width im" "0 < img_height im" "0 < s" "\<not> img_width im / img_height im > 1"
  shows "icon_placement s im =
     ((s - s * img_width im / img_height im) / 2, 0, s * img_width im / img_height im, s)"
  using assms by (simp add: icon_placement_def Let_def)

text \<open>
  Claim C2, amended. For an image of positive size and an icon size above twice the
  border, with \<open>s\<close> the side of the inner square: an image whose aspect ratio is greater
  than 1 is fit to the width of the square and centered vertically, any other image is
  fit to the height and centered horizontally. Either way the aspect ratio is kept, the
  scaled image lies inside the square with its center at the center of the square, and
  it is drawn there, shifted by the border, under the clip of the rounded rectangle.
\<close>

theorem icon_fit_contain:
  assumes "0 < img_width im" and "0 < img_height im"
    and "2 * borderWidth < squareSize (state w)"
  shows "let s = squareSize (state w) - 2 * borderWidth;
             (ox, oy, sw, sh) = icon_placement s im
         in (img_width im / img_height im > 1 \<longrightarrow>
               sw = s \<and> sh = s * img_height im / img_width im \<and> ox = 0 \<and> oy = (s - sh) / 2)
          \<and> (\<not> img_width im / img_height im > 1 \<longrightarrow>
               sh = s \<and> sw = s * img_width im / img_height im \<and> oy = 0 \<and> ox = (s - sw) / 2)
          \<and> sw * img_height im = sh * img_width im
          \<and> 0 \<le> ox \<and> 0 \<le> oy \<and> sw \<le> s \<and> sh \<le> s
          \<and> ox + sw / 2 = s / 2 \<and> oy + sh / 2 = s / 2
          \<and> last (blitted (squareCanvas (world_of (drawSquareImage_onload im w)))) =
              (default_pen\<lparr>fillStyle := (if 0 < iconBgSize (state w) then iconColor (state w)
                                          else fillStyle default_pen),
                           ctx_clip := [inner_clip (squareSize (state w))]\<rparr>,
               DrawImage im (borderWidth + ox) (borderWidth + oy) sw sh)"
proof -
  define s where "s = squareSize (state w) - 2 * borderWidth"
  have s: "0 < s" using assms(3) by (simp add: s_def)
  show ?thesis
  proof (cases "img_width im / img_height im > 1")
    case True
    then have wh: "img_height im < img_width im" using assms(2) by simp
    have le: "s * img_height im / img_width im \<le> s"
      using wh s assms(1) by (simp add: divide_le_eq mult_le_cancel_left)
    note p = icon_placement_wide[OF assms(1,2) s True]
    show ?thesis
      unfolding Let_def s_def[symmetric]
      using True le assms(1,2) s drawSquareImage_onload_image[of w im, unfolded s_def[symmetric], OF p]
      by (simp add: p field_simps)
  next
    case False
    then have wh: "img_width im \<le> img_height im" using assms(2) by simp
    have le: "s * img_width im / img_height im \<le> s"
      using wh s assms(2) by (simp add: divide_le_eq mult_le_cancel_left)
    note p = icon_placement_tall[OF assms(1,2) s False]
    show ?thesis
      unfolding Let_def s_def[symmetric]
      using False le assms(1,2) s drawSquareImage_onload_image[of w im, unfolded s_def[symmetric], OF p]
      by (simp add: p field_simps)
  qed
qed

theorem icon_fit_contain_witness:
  "0 < img_width (mk_image 520 260) \<and> 0 < img_height (mk_image 520 260)
   \<and> 0 < img_width (mk_image 130 260) \<and> 0 < img_height (mk_image 130 260)
   \<and> 2 * borderWidth < squareSize (state page_world)
   \<and> img_width (mk_image 520 260) / img_height (mk_image 520 260) > 1
   \<and> \<not> img_width (mk_image 130 260) / img_height (mk_image 130 260) > 1
   \<and> snd (last (blitted (squareCanvas (world_of
         (drawSquareImage_onload (mk_image 520 260) page_world))))) =
       DrawImage (mk_image 520 260) 20 85 260 130
   \<and> snd (last (blitted (squareCanvas (world_of
         (drawSquareImage_onload (mk_image 130 260) page_world))))) =
       DrawImage (mk_image 130 260) 85 20 130 260"
proof -
  have h: "2 * borderWidth < squareSize (state page_world)"
    by (simp add: page_world_def initial_world_def initial_state_def borderWidth_def)
  have s: "squareSize (state page_world) = 300"
    by (simp add: page_world_def initial_world_def initial_state_def)
  have img: "img_width (mk_image x y) = x" "img_height (mk_image x y) = y" for x y
    by (simp_all add: mk_image_def)
  have p1: "icon_placement 260 (mk_image 520 260) = (0, 65, 260, 130)"
    by (simp add: icon_placement_def mk_image_def Let_def)
  have p2: "icon_placement 260 (mk_image 130 260) = (65, 0, 130, 260)"
    by (simp add: icon_placement_def mk_image_def Let_def)
  have a: "snd (last (blitted (squareCanvas (world_of
         (drawSquareImage_onload (mk_image 520 260) page_world))))) =
       DrawImage (mk_image 520 260) 20 85 260 130"
    using icon_fit_contain[of "mk_image 520 260" page_world] h
    by (simp add: Let_def s p1 img borderWidth_def)
  have b: "snd (last (blitted (squareCanvas (world_of
         (drawSquareImage_onload (mk_image 130 260) page_world))))) =
       DrawImage (mk_image 130 260) 85 20 130 260"
    using icon_fit_contain[of "mk_image 130 260" page_world] h
    by (simp add: Let_def s p2 img borderWidth_def)
  show ?thesis using a b h by (simp add: mk_image_def)
qed

section \<open>The update functions\<close>

text \<open>
  Claim C10. \<open>updateShadowStrength\<close> leaves \<open>state\<close> as it was but for \<open>shadowBlur\<close>,
  set to twice the current \<open>shadowStrength\<close>, and the two shadow offsets, set to 0;
  \<open>shadowStrength\<close> itself is not written, and the event is not read: any two events
  give the same outcome.
\<close>

theorem updateShadowStrength_frame:
  "state (world_of (updateShadowStrength e w)) =
     (state w)\<lparr>shadowBlur := 2 * shadowStrength (state w), shadowOffsetX := 0,
               shadowOffsetY := 0\<rparr>
   \<and> shadowStrength (state (world_of (updateShadowStrength e w))) = shadowStrength (state w)
   \<and> updateShadowStrength e w = updateShadowStrength e' w"
  by (simp add: updateShadowStrength_def Let_def mult.commute)

text \<open>
  Claim C9. After \<open>updateText\<close>, \<open>state.text\<close> is the value of the event when that is
  not empty and the default title otherwise; it is never empty; and
  \<open>state.hasMultipleLines\<close> tells whether it contains a line feed.
\<close>

theorem updateText_sets_text:
  "let st = state (world_of (updateText e w)) in
     text' st = (if target_value e \<noteq> [] then target_value e else defaultConfig_text)
   \<and> text' st \<noteq> []
   \<and> hasMultipleLines st = includes_newline (text' st)"
  by (simp add: updateText_def Let_def defaultConfig_text_def)

section \<open>The background layer\<close>

lemma cover_placement_eq:
  "cover_placement cw ch im =
     (let scale = max (cw / img_width im) (ch / img_height im) in
      ((cw - img_width im * scale) / 2, (ch - img_height im * scale) / 2,
       img_width im * scale, img_height im * scale))"
  by (simp add: cover_placement_def Let_def)

lemma cover_placement_covers:
  assumes "0 < img_width im" and "0 < img_height im"
  shows "cw \<le> img_width im * max (cw / img_width im) (ch / img_height im)"
    and "ch \<le> img_height im * max (cw / img_width im) (ch / img_height im)"
proof -
  have "img_width im * (cw / img_width im) \<le> img_width im * max (cw / img_width im) (ch / img_height im)"
    using assms(1) by (intro mult_left_mono) simp_all
  then show "cw \<le> img_width im * max (cw / img_width im) (ch / img_height im)"
    using assms(1) by simp
  have "img_height im * (ch / img_height im) \<le> img_height im * max (cw / img_width im) (ch / img_height im)"
    using assms(2) by (intro mult_left_mono) simp_all
  then show "ch \<le> img_height im * max (cw / img_width im) (ch / img_height im)"
    using assms(2) by simp
qed

lemma clearRect_plain:
  "plain cv \<Longrightarrow> clearRect 0 0 (width cv) (height cv) cv = cv\<lparr>content := []\<rparr>"
  by (simp add: clearRect_def plain_def)

lemma drawBackground_image:
  assumes "plain (bgCanvas w)" and "truthy (bgImageUrl (state w))"
  shows "drawBackground w =
     Returned (w\<lparr>calls := calls w @ [Call_drawBackground],
                 bgCanvas := (bgCanvas w)\<lparr>content := []\<rparr>,
                 pending := pending w @ [BgOnload (string_of (bgImageUrl (state w)))]\<rparr>)"
  using assms by (simp add: drawBackground_def Let_def clearRect_plain)

lemma drawBackground_color:
  assumes "plain (bgCanvas w)" and "\<not> truthy (bgImageUrl (state w))"
  shows "bgCanvas (world_of (drawBackground w)) =
           (bgCanvas w)\<lparr>pen := (pen (bgCanvas w))\<lparr>fillStyle := bgColor (state w)\<rparr>,
                         content := [((pen (bgCanvas w))\<lparr>fillStyle := bgColor (state w)\<rparr>,
                                      FillRect 0 0 (width (bgCanvas w)) (height (bgCanvas w)))]\<rparr>"
    and "pending (world_of (drawBackground w)) = pending w"
  using assms by (simp_all add: drawBackground_def Let_def clearRect_plain fillRect_def put_def set_pen_def)

lemma drawBackground_onload_content:
  "content (bgCanvas (world_of (drawBackground_onload im w))) =
     content (bgCanvas w) @
       [((pen (bgCanvas w))\<lparr>ctx_filter := Blur (bgBlur (state w))\<rparr>,
         (case cover_placement (width (bgCanvas w)) (height (bgCanvas w)) im of
            (x, y, w', h') \<Rightarrow> DrawImage im x y w' h'))]"
  by (simp add: drawBackground_onload_def Let_def canvas_ops split: prod.splits)

text \<open>
  Claim C5. On a background canvas without transform or clip, for an image of positive
  size: when \<open>state.bgImageUrl\<close> is set, \<open>drawBackground\<close> clears the surface, paints no
  color and requests the decoding of the image; once decoded, the image is drawn scaled
  by \<open>max(W / imageWidth, H / imageHeight)\<close>, with its center at the center of the
  surface, covering it, under the filter \<open>blur(bgBlur)\<close>, and it is all the surface
  holds. When no image is set, \<open>drawBackground\<close> fills the rectangle of the whole surface
  with \<open>state.bgColor\<close> and requests nothing. \<open>updateBackgroundColor\<close> clears the image
  and fills the surface with the new color. (The fill is issued under the drawing state
  the context has then, which still holds the filter of an earlier image.)
\<close>

theorem drawBackground_image_or_color:
  assumes "plain (bgCanvas w)" and "0 < img_width im" and "0 < img_height im"
  shows
   "let W = width (bgCanvas w); H = height (bgCanvas w); p = pen (bgCanvas w) in
      (truthy (bgImageUrl (state w)) \<longrightarrow>
         (let w1 = world_of (drawBackground w);
              scale = max (W / img_width im) (H / img_height im);
              (x, y, w', h') = cover_placement W H im
          in thrown (drawBackground w) = None
           \<and> content (bgCanvas w1) = []
           \<and> pending w1 = pending w @ [BgOnload (string_of (bgImageUrl (state w)))]
           \<and> w' = img_width im * scale \<and> h' = img_height im * scale
           \<and> x + w' / 2 = W / 2 \<and> y + h' / 2 = H / 2
           \<and> W \<le> w' \<and> H \<le> h'
           \<and> content (bgCanvas (world_of (drawBackground_onload im w1))) =
               [(p\<lparr>ctx_filter := Blur (bgBlur (state w))\<rparr>, DrawImage im x y w' h')]))
    \<and> (\<not> truthy (bgImageUrl (state w)) \<longrightarrow>
         content (bgCanvas (world_of (drawBackground w))) =
           [(p\<lparr>fillStyle := bgColor (state w)\<rparr>, FillRect 0 0 W H)]
         \<and> pending (world_of (drawBackground w)) = pending w)
    \<and> (let w2 = world_of (updateBackgroundColor e w) in
         bgImageUrl (state w2) = None \<and> bgColor (state w2) = target_value e
         \<and> content (bgCanvas w2) = [(p\<lparr>fillStyle := target_value e\<rparr>, FillRect 0 0 W H)])"
proof -
  let ?W = "width (bgCanvas w)" and ?H = "height (bgCanvas w)"
  let ?s = "max (?W / img_width im) (?H / img_height im)"
  have img: "truthy (bgImageUrl (state w)) \<Longrightarrow>
      thrown (drawBackground w) = None
      \<and> content (bgCanvas (world_of (drawBackground w))) = []
      \<and> pending (world_of (drawBackground w)) =
          pending w @ [BgOnload (string_of (bgImageUrl (state w)))]
      \<and> content (bgCanvas (world_of (drawBackground_onload im (world_of (drawBackground w))))) =
          [((pen (bgCanvas w))\<lparr>ctx_filter := Blur (bgBlur (state w))\<rparr>,
            DrawImage im ((?W - img_width im * ?s) / 2) ((?H - img_height im * ?s) / 2)
              (img_width im * ?s) (img_height im * ?s))]"
    using assms(1)
    by (simp add: drawBackground_image drawBackground_onload_content cover_placement_eq Let_def)
  have col: "\<not> truthy (bgImageUrl (state w)) \<Longrightarrow>
      content (bgCanvas (world_of (drawBackground w))) =
        [((pen (bgCanvas w))\<lparr>fillStyle := bgColor (state w)\<rparr>, FillRect 0 0 ?W ?H)]
      \<and> pending (world_of (drawBackground w)) = pending w"
    using assms(1) by (simp add: drawBackground_color)
  let ?w2 = "w\<lparr>state := (state w)\<lparr>bgColor := target_value e, bgImageUrl := None\<rparr>\<rparr>"
  have p2: "plain (bgCanvas ?w2)" and f2: "\<not> truthy (bgImageUrl (state ?w2))"
    using assms(1) by (simp_all add: truthy_def)
  have upd: "bgImageUrl (state (world_of (updateBackgroundColor e w))) = None
      \<and> bgColor (state (world_of (updateBackgroundColor e w))) = target_value e
      \<and> content (bgCanvas (world_of (updateBackgroundColor e w))) =
          [((pen (bgCanvas w))\<lparr>fillStyle := target_value e\<rparr>, FillRect 0 0 ?W ?H)]"
    using drawBackground_color(1)[OF p2 f2] by (simp add: updateBackgroundColor_def)
  have cen: "(?W - img_width im * ?s) / 2 + img_width im * ?s / 2 = ?W / 2"
    "(?H - img_height im * ?s) / 2 + img_height im * ?s / 2 = ?H / 2"
    by (simp_all add: field_simps)
  show ?thesis
    unfolding Let_def cover_placement_eq
    using img col upd cen cover_placement_covers[OF assms(2,3), where cw = ?W and ch = ?H]
    by (simp del: max_less_iff_conj)
qed

theorem drawBackground_image_or_color_witness:
  "plain (bgCanvas page_world_with_bg) \<and> plain (bgCanvas page_world)
   \<and> 0 < img_width (mk_image 2000 500) \<and> 0 < img_height (mk_image 2000 500)
   \<and> truthy (bgImageUrl (state page_world_with_bg))
   \<and> \<not> truthy (bgImageUrl (state page_world))
   \<and> content (bgCanvas (world_of (drawBackground_onload (mk_image 2000 500)
         (world_of (drawBackground page_world_with_bg))))) =
       [(default_pen\<lparr>ctx_filter := Blur 3\<rparr>, DrawImage (mk_image 2000 500) (- 500) 0 2000 500)]
   \<and> content (bgCanvas (world_of (drawBackground page_world))) =
       [(default_pen\<lparr>fillStyle := ''#ffffff''\<rparr>, FillRect 0 0 1000 500)]
   \<and> content (bgCanvas (world_of (updateBackgroundColor color_event page_world_with_bg))) =
       [(default_pen\<lparr>fillStyle := ''#123456''\<rparr>, FillRect 0 0 1000 500)]"
proof -
  have pw: "bgCanvas page_world = createCanvas 1000 500"
    "bgCanvas page_world_with_bg = createCanvas 1000 500"
    "state page_world = initial_state None"
    "state page_world_with_bg = (initial_state None)\<lparr>bgImageUrl := Some ''data:image/png;base64,AAAA''\<rparr>"
    by (simp_all add: page_world_with_bg_def page_world_def initial_world_def)
  have cv: "width (createCanvas 1000 500) = 1000" "height (createCanvas 1000 500) = 500"
    "pen (createCanvas 1000 500) = default_pen" "plain (createCanvas 1000 500)"
    by (simp_all add: createCanvas_def plain_def default_pen_def)
  have st: "truthy (Some ''data:image/png;base64,AAAA'')" "\<not> truthy None"
    "bgImageUrl (initial_state None) = None" "bgBlur (initial_state None) = 3"
    "bgColor (initial_state None) = ''#ffffff''"
    by (simp_all add: truthy_def initial_state_def)
  have im: "img_width (mk_image 2000 500) = 2000" "img_height (mk_image 2000 500) = 500"
    by (simp_all add: mk_image_def)
  have cp: "cover_placement 1000 500 (mk_image 2000 500) = (- 500, 0, 2000, 500)"
    by (simp add: cover_placement_def Let_def im)
  have ev: "target_value color_event = ''#123456''" by (simp add: color_event_def)
  have a: "content (bgCanvas (world_of (drawBackground_onload (mk_image 2000 500)
         (world_of (drawBackground page_world_with_bg))))) =
       [(default_pen\<lparr>ctx_filter := Blur 3\<rparr>, DrawImage (mk_image 2000 500) (- 500) 0 2000 500)]"
    using drawBackground_image_or_color[of page_world_with_bg "mk_image 2000 500" color_event]
    by (simp add: Let_def pw cv st im cp)
  have b: "content (bgCanvas (world_of (updateBackgroundColor color_event page_world_with_bg))) =
       [(default_pen\<lparr>fillStyle := ''#123456''\<rparr>, FillRect 0 0 1000 500)]"
    using drawBackground_image_or_color[of page_world_with_bg "mk_image 2000 500" color_event]
    by (simp add: Let_def pw cv st im cp ev)
  have c: "content (bgCanvas (world_of (drawBackground page_world))) =
       [(default_pen\<lparr>fillStyle := ''#ffffff''\<rparr>, FillRect 0 0 1000 500)]"
    using drawBackground_image_or_color[of page_world "mk_image 2000 500" color_event]
    by (simp add: Let_def pw cv st im cp)
  show ?thesis using a b c by (simp add: pw cv st im)
qed

section \<open>The text layer\<close>

lemma split_on_nonempty: "split_on sep s \<noteq> []"
  by (induction s) (auto split: list.splits)

lemma foldl_fillText:
  "foldl (\<lambda>cv (index, line). fillText line (width cv / 2) (f index) cv) cv (enumerate n ls) =
     cv\<lparr>content := content cv @
          map (\<lambda>(index, line). (pen cv, FillText line (width cv / 2) (f index))) (enumerate n ls)\<rparr>"
  by (induction ls arbitrary: cv n) (simp_all add: fillText_def put_def)


lemma drawText_content:
  assumes "plain (textCanvas w)"
  shows "content (textCanvas (world_of (drawText w))) =
     map (\<lambda>(index, line).
            (text_pen w,
             FillText line (width (textCanvas w) / 2)
               ((height (textCanvas w)
                   - textSize (state w) * lineHeight (state w)
                       * real (length (split_lines (text' (state w))))) / 2
                + textSize (state w) * lineHeight (state w) / 2
                + real index * (textSize (state w) * lineHeight (state w)))))
         (enumerate 0 (split_lines (text' (state w))))"
  using assms
  by (simp add: drawText_def Let_def clearRect_plain set_pen_def foldl_fillText text_pen_def
      font_family_def)

lemma texts_of_fillTexts:
  "concat (map painted_text (map (\<lambda>(i, l). (p, FillText l x (f i))) (enumerate n ls))) =
     map (\<lambda>(i, l). (l, x, f i)) (enumerate n ls)"
  by (induction ls arbitrary: n) simp_all

lemma enumerate_Nil_iff: "enumerate n ls = [] \<longleftrightarrow> ls = []"
  by (cases ls) simp_all

lemma hd_enumerate: "ls \<noteq> [] \<Longrightarrow> hd (enumerate n ls) = (n, hd ls)"
  by (cases ls) simp_all

lemma last_enumerate: "ls \<noteq> [] \<Longrightarrow> last (enumerate n ls) = (n + length ls - 1, last ls)"
proof (induction ls arbitrary: n)
  case Nil
  then show ?case by simp
next
  case (Cons a ls)
  then show ?case by (cases "ls = []") (simp_all add: enumerate_Nil_iff)
qed

lemma map_const_pen:
  "map (\<lambda>(p, q). g p) (map (\<lambda>(i, l). (P, h i l)) xs) = replicate (length xs) (g P)"
  by (induction xs) auto

lemma split_three_lines: "split_lines three_lines = [''A'', ''BB'', ''CCC'']"
  by (simp add: split_lines_def three_lines_def newline_def)

text \<open>
  Claim C6. On a text canvas without transform or clip, \<open>drawText\<close> paints the lines of
  \<open>state.text\<close>, split at the line feeds, in order: line \<open>i\<close> at the horizontal center
  \<open>W / 2\<close> and at the height \<open>(H - lineHeight * lineCount) / 2 + lineHeight / 2 + i *
  lineHeight\<close>, where \<open>lineHeight = textSize * state.lineHeight\<close>, each with
  \<open>textAlign = center\<close> and \<open>textBaseline = middle\<close>. There is at least one line, and
  the space above the first line equals the space below the last. For the title of three
  lines \<open>A\<close>, \<open>BB\<close>, \<open>CCC\<close> with \<open>textSize = 100\<close> and \<open>lineHeight = 1\<close> the three
  heights are \<open>(H - 300) / 2 + 50\<close>, \<open>+ 150\<close>, \<open>+ 250\<close>: 100 apart, the block of 300
  centered.
\<close>

theorem drawText_multi_line:
  assumes "plain (textCanvas w)"
  shows "let lines = split_lines (text' (state w)); lineCount = length lines;
             lh = textSize (state w) * lineHeight (state w);
             W = width (textCanvas w); H = height (textCanvas w);
             tc = textCanvas (world_of (drawText w))
         in texts tc =
              map (\<lambda>(i, line). (line, W / 2, (H - lh * real lineCount) / 2 + lh / 2 + real i * lh))
                (enumerate 0 lines)
          \<and> map (\<lambda>(p, q). (textAlign p, textBaseline p)) (content tc) =
              replicate lineCount (''center'', ''middle'')
          \<and> 1 \<le> lineCount
          \<and> snd (snd (hd (texts tc))) - lh / 2 = H - (snd (snd (last (texts tc))) + lh / 2)
          \<and> texts (textCanvas (world_of (drawText
               (w\<lparr>state := (state w)\<lparr>text' := three_lines, textSize := 100, lineHeight := 1\<rparr>\<rparr>)))) =
              [(''A'', W / 2, (H - 300) / 2 + 50), (''BB'', W / 2, (H - 300) / 2 + 150),
               (''CCC'', W / 2, (H - 300) / 2 + 250)]"
proof -
  define lines where "lines = split_lines (text' (state w))"
  define lh where "lh = textSize (state w) * lineHeight (state w)"
  define W where "W = width (textCanvas w)"
  define H where "H = height (textCanvas w)"
  define y where "y = (\<lambda>i::nat. (H - lh * real (length lines)) / 2 + lh / 2 + real i * lh)"
  define tc where "tc = textCanvas (world_of (drawText w))"
  have ne: "lines \<noteq> []" by (simp add: lines_def split_lines_def split_on_nonempty)
  then have n1: "1 \<le> length lines" by (cases lines) simp_all
  have c: "content tc = map (\<lambda>(i, l). (text_pen w, FillText l (W / 2) (y i))) (enumerate 0 lines)"
    unfolding tc_def y_def lines_def lh_def W_def H_def
    by (rule drawText_content[OF assms])
  have t: "texts tc = map (\<lambda>(i, l). (l, W / 2, y i)) (enumerate 0 lines)"
    unfolding texts_def c by (rule texts_of_fillTexts)
  have al: "map (\<lambda>(p, q). (textAlign p, textBaseline p)) (content tc) =
      replicate (length lines) (''center'', ''middle'')"
    unfolding c
    using map_const_pen[of "\<lambda>p. (textAlign p, textBaseline p)" "text_pen w"
        "\<lambda>i l. FillText l (W / 2) (y i)" "enumerate 0 lines"]
    by (simp add: text_pen_def)
  have h: "snd (snd (hd (texts tc))) = y 0"
    using ne by (simp add: t hd_map hd_enumerate enumerate_Nil_iff)
  have l: "snd (snd (last (texts tc))) = y (length lines - 1)"
    using ne by (simp add: t last_map last_enumerate enumerate_Nil_iff)
  have m: "y 0 - lh / 2 = H - (y (length lines - 1) + lh / 2)"
    using n1 by (simp add: y_def of_nat_diff field_simps)
  let ?w = "w\<lparr>state := (state w)\<lparr>text' := three_lines, textSize := 100, lineHeight := 1\<rparr>\<rparr>"
  have p: "plain (textCanvas ?w)" using assms by simp
  have ex: "texts (textCanvas (world_of (drawText ?w))) =
      [(''A'', W / 2, (H - 300) / 2 + 50), (''BB'', W / 2, (H - 300) / 2 + 150),
       (''CCC'', W / 2, (H - 300) / 2 + 250)]"
    unfolding texts_def drawText_content[OF p]
    by (simp add: split_three_lines W_def H_def)
  show ?thesis
    unfolding Let_def lines_def[symmetric] lh_def[symmetric] W_def[symmetric] H_def[symmetric]
      tc_def[symmetric]
    using t al n1 h l m ex by (simp add: y_def)
qed

theorem drawText_multi_line_witness:
  "plain (textCanvas page_world)
   \<and> texts (textCanvas (world_of (drawText
        (page_world\<lparr>state := (state page_world)\<lparr>text' := three_lines, textSize := 100,
                                                    lineHeight := 1\<rparr>\<rparr>)))) =
       [(''A'', 500, 150), (''BB'', 500, 250), (''CCC'', 500, 350)]"
proof -
  have p: "plain (textCanvas page_world)"
    by (simp add: page_world_def initial_world_def createCanvas_def plain_def default_pen_def)
  have d: "width (textCanvas page_world) = 1000" "height (textCanvas page_world) = 500"
    by (simp_all add: page_world_def initial_world_def createCanvas_def)
  show ?thesis
    using drawText_multi_line[OF p] p by (simp add: Let_def d)
qed

section \<open>The compositor\<close>

lemma composeCanvases_frame [simp]:
  "ctx (world_of (composeCanvases w)) = ctx w"
  "canvas (world_of (composeCanvases w)) = canvas w"
  "htmlFontFamily (world_of (composeCanvases w)) = htmlFontFamily w"
  "calls (world_of (composeCanvases w)) = calls w @ [Call_composeCanvases]"
  by (simp_all add: composeCanvases_def Let_def split: option.splits)

lemma composeCanvases_acquired:
  assumes "ctx w = Some c" and "canvas w = Some c" and "plain (elements w c)"
  shows "composeCanvases w =
     Returned (w\<lparr>calls := calls w @ [Call_composeCanvases],
                 elements := (elements w)
                   (c := (elements w c)\<lparr>content :=
                      map (Pair (pen (elements w c)))
                        (composite (bgCanvas w) (textCanvas w) (squareCanvas w)
                           (watermarkCanvas w))\<rparr>)\<rparr>)"
  using assms
  by (simp add: composeCanvases_def Let_def clearRect_plain drawCanvas_at_def drawCanvas_def
      put_def composite_def layer_paint_def)

lemma composeCanvases_not_acquired:
  "ctx w = None \<Longrightarrow> composeCanvases w = Returned (w\<lparr>calls := calls w @ [Call_composeCanvases]\<rparr>)"
  by (simp add: composeCanvases_def Let_def)

lemma composeCanvases_shown:
  assumes "acquired w"
  shows "thrown (composeCanvases w) = None"
    and "shown (world_of (composeCanvases w)) =
      map (Pair (out_pen w))
        (composite (bgCanvas w) (textCanvas w) (squareCanvas w) (watermarkCanvas w))"
    and "acquired (world_of (composeCanvases w))"
    and "out_pen (world_of (composeCanvases w)) = out_pen w"
proof -
  from assms obtain c where c: "ctx w = Some c" "canvas w = Some c" "plain (elements w c)"
    by (auto simp: acquired_def split: option.splits)
  show "thrown (composeCanvases w) = None"
    and "shown (world_of (composeCanvases w)) =
      map (Pair (out_pen w))
        (composite (bgCanvas w) (textCanvas w) (squareCanvas w) (watermarkCanvas w))"
    and "acquired (world_of (composeCanvases w))"
    and "out_pen (world_of (composeCanvases w)) = out_pen w"
    using c by (simp_all add: composeCanvases_acquired[OF c] shown_def out_pen_def acquired_def
        plain_def)
qed

text \<open>Each synchronous redraw is a change of its own layer followed by the compositor.\<close>

lemma drawText_eq:
  "drawText w =
     composeCanvases (w\<lparr>calls := calls w @ [Call_drawText],
                        textCanvas := textCanvas (world_of (drawText w))\<rparr>)"
  by (simp add: drawText_def Let_def)

lemma drawWatermark_eq:
  "drawWatermark w =
     composeCanvases (w\<lparr>calls := calls w @ [Call_drawWatermark],
                        watermarkCanvas := watermarkCanvas (world_of (drawWatermark w))\<rparr>)"
  by (simp add: drawWatermark_def Let_def)

lemma drawBackground_eq:
  "\<not> truthy (bgImageUrl (state w)) \<Longrightarrow>
   drawBackground w =
     composeCanvases (w\<lparr>calls := calls w @ [Call_drawBackground],
                        bgCanvas := bgCanvas (world_of (drawBackground w))\<rparr>)"
  by (simp add: drawBackground_def Let_def)

lemma drawSquareImage_eq:
  "\<not> truthy (squareImageUrl (state w)) \<Longrightarrow>
   drawSquareImage w =
     composeCanvases (w\<lparr>calls := calls w @ [Call_drawSquareImage],
                        squareCanvas := squareCanvas (world_of (drawSquareImage w))\<rparr>)"
  by (simp add: drawSquareImage_def Let_def)

text \<open>The surface a redraw leaves on its layer, on a canvas without transform or clip.\<close>

lemma drawText_canvas:
  assumes "plain (textCanvas w)"
  shows "textCanvas (world_of (drawText w)) =
     (textCanvas w)\<lparr>pen := text_pen w,
                     content := content (textCanvas (world_of (drawText w)))\<rparr>"
  using assms
  by (simp add: drawText_def Let_def clearRect_plain set_pen_def foldl_fillText text_pen_def
      font_family_def)

lemma drawWatermark_canvas:
  assumes "plain (watermarkCanvas w)"
  shows "watermarkCanvas (world_of (drawWatermark w)) =
     (watermarkCanvas w)
       \<lparr>pen := (pen (watermarkCanvas w))
                 \<lparr>font := Font ''italic'' 14 (font_family w),
                  fillStyle := watermarkColor (state w), textAlign := ''right''\<rparr>,
        content :=
          [((pen (watermarkCanvas w))
              \<lparr>font := Font ''italic'' 14 (font_family w),
               fillStyle := watermarkColor (state w), textAlign := ''right''\<rparr>,
            FillText (watermark (state w)) (width (watermarkCanvas w) - 20)
              (height (watermarkCanvas w) - 20))]\<rparr>"
  using assms
  by (simp add: drawWatermark_def Let_def clearRect_plain set_pen_def fillText_def put_def
      font_family_def)

lemma drawSquareImage_canvas:
  assumes "plain (squareCanvas w)"
  shows "squareCanvas (world_of (drawSquareImage w)) = (squareCanvas w)\<lparr>content := []\<rparr>"
  using assms by (simp add: drawSquareImage_def Let_def clearRect_plain)

lemmas draw_defs = drawBackground_def drawText_def drawSquareImage_def drawWatermark_def

lemma redraw_frame [simp]:
  "state (world_of (redraw a w)) = state w"
  "htmlFontFamily (world_of (redraw a w)) = htmlFontFamily w"
  "ctx (world_of (redraw a w)) = ctx w"
  "canvas (world_of (redraw a w)) = canvas w"
  by (cases a; simp add: draw_defs Let_def)+

lemma draw_frame [simp]:
  "state (world_of (drawWatermark w)) = state w"
  "htmlFontFamily (world_of (drawBackground w)) = htmlFontFamily w"
  "htmlFontFamily (world_of (drawText w)) = htmlFontFamily w"
  "htmlFontFamily (world_of (drawSquareImage w)) = htmlFontFamily w"
  "htmlFontFamily (world_of (drawWatermark w)) = htmlFontFamily w"
  "ctx (world_of (drawBackground w)) = ctx w"
  "ctx (world_of (drawText w)) = ctx w"
  "ctx (world_of (drawSquareImage w)) = ctx w"
  "ctx (world_of (drawWatermark w)) = ctx w"
  "canvas (world_of (drawBackground w)) = canvas w"
  "canvas (world_of (drawText w)) = canvas w"
  "canvas (world_of (drawSquareImage w)) = canvas w"
  "canvas (world_of (drawWatermark w)) = canvas w"
  using redraw_frame[of Background w] redraw_frame[of Text w] redraw_frame[of Icon w]
    redraw_frame[of Watermark w]
  by simp_all

lemma redraw_other:
  "l \<noteq> a \<Longrightarrow> layer_canvas l (world_of (redraw a w)) = layer_canvas l w"
  by (cases a; cases l; simp add: draw_defs Let_def)

lemma redraw_own:
  assumes "state v = state w" and "htmlFontFamily v = htmlFontFamily w"
    and "layer_canvas a v = layer_canvas a w"
  shows "layer_canvas a (world_of (redraw a v)) = layer_canvas a (world_of (redraw a w))"
  using assms by (cases a; simp add: draw_defs Let_def font_family_def)

lemma redraw_plain:
  assumes "synchronous w" and "plain (layer_canvas l w)"
  shows "plain (layer_canvas l (world_of (redraw a w)))"
proof (cases "l = a")
  case False
  then show ?thesis using assms(2) by (simp add: redraw_other)
next
  case True
  have s: "\<not> truthy (bgImageUrl (state w))" "plain (bgCanvas w)" "plain (textCanvas w)"
    "plain (squareCanvas w)" "plain (watermarkCanvas w)"
    using assms(1) by (simp_all add: synchronous_def)
  show ?thesis
  proof (cases a)
    case Background
    with True s show ?thesis by (simp add: drawBackground_color(1)) (simp add: plain_def)
  next
    case Text
    have "plain (textCanvas (world_of (drawText w)))"
      by (subst drawText_canvas[OF s(3)]) (use s(3) in \<open>simp add: plain_def text_pen_def\<close>)
    with True Text show ?thesis by simp
  next
    case Icon
    with True s show ?thesis by (simp add: drawSquareImage_canvas) (simp add: plain_def)
  next
    case Watermark
    with True s show ?thesis by (simp add: drawWatermark_canvas) (simp add: plain_def)
  qed
qed

lemma synchronous_layers:
  "synchronous w \<longleftrightarrow>
     \<not> truthy (bgImageUrl (state w)) \<and> \<not> truthy (squareImageUrl (state w))
     \<and> (\<forall>l. plain (layer_canvas l w))"
proof -
  have "(\<forall>l. plain (layer_canvas l w)) \<longleftrightarrow>
      plain (bgCanvas w) \<and> plain (textCanvas w) \<and> plain (squareCanvas w)
      \<and> plain (watermarkCanvas w)"
    by (metis layer.exhaust layer_canvas.simps)
  then show ?thesis by (auto simp: synchronous_def)
qed

lemma redraw_synchronous: "synchronous w \<Longrightarrow> synchronous (world_of (redraw a w))"
  using redraw_plain[of w _ a] by (simp add: synchronous_layers)

lemma redraw_eq:
  assumes "synchronous w"
  shows "\<exists>u. redraw a w = composeCanvases u \<and> ctx u = ctx w \<and> canvas u = canvas w
           \<and> elements u = elements w"
proof (cases a)
  case Background
  with assms drawBackground_eq[of w] show ?thesis
    by (intro exI[of _ "w\<lparr>calls := calls w @ [Call_drawBackground],
          bgCanvas := bgCanvas (world_of (drawBackground w))\<rparr>"]) (simp add: synchronous_def)
next
  case Text
  with drawText_eq[of w] show ?thesis
    by (intro exI[of _ "w\<lparr>calls := calls w @ [Call_drawText],
          textCanvas := textCanvas (world_of (drawText w))\<rparr>"]) simp
next
  case Icon
  with assms drawSquareImage_eq[of w] show ?thesis
    by (intro exI[of _ "w\<lparr>calls := calls w @ [Call_drawSquareImage],
          squareCanvas := squareCanvas (world_of (drawSquareImage w))\<rparr>"]) (simp add: synchronous_def)
next
  case Watermark
  with drawWatermark_eq[of w] show ?thesis
    by (intro exI[of _ "w\<lparr>calls := calls w @ [Call_drawWatermark],
          watermarkCanvas := watermarkCanvas (world_of (drawWatermark w))\<rparr>"]) simp
qed

lemma redraw_shown:
  assumes "synchronous w" and "acquired w"
  shows "thrown (redraw a w) = None"
    and "acquired (world_of (redraw a w))"
    and "out_pen (world_of (redraw a w)) = out_pen w"
    and "shown (world_of (redraw a w)) =
      map (Pair (out_pen w))
        (composite (bgCanvas (world_of (redraw a w))) (textCanvas (world_of (redraw a w)))
           (squareCanvas (world_of (redraw a w))) (watermarkCanvas (world_of (redraw a w))))"
proof -
  from redraw_eq[OF assms(1), of a] obtain u where
    u: "redraw a w = composeCanvases u" "ctx u = ctx w" "canvas u = canvas w"
       "elements u = elements w"
    by blast
  have au: "acquired u" and pu: "out_pen u = out_pen w"
    using assms(2) u(2,3,4) by (auto simp: acquired_def out_pen_def split: option.splits)
  show "thrown (redraw a w) = None" and "acquired (world_of (redraw a w))"
    and "out_pen (world_of (redraw a w)) = out_pen w"
    using composeCanvases_shown[OF au] pu by (simp_all add: u(1))
  show "shown (world_of (redraw a w)) =
      map (Pair (out_pen w))
        (composite (bgCanvas (world_of (redraw a w))) (textCanvas (world_of (redraw a w)))
           (squareCanvas (world_of (redraw a w))) (watermarkCanvas (world_of (redraw a w))))"
    using composeCanvases_shown(2)[OF au] pu by (simp add: u(1))
qed

lemma redraw_idem:
  assumes "synchronous w"
  shows "layer_canvas a (world_of (redraw a (world_of (redraw a w)))) =
         layer_canvas a (world_of (redraw a w))"
proof (cases a)
  case Background
  have p: "plain (bgCanvas w)" and n: "\<not> truthy (bgImageUrl (state w))"
    using assms by (simp_all add: synchronous_def)
  let ?w1 = "world_of (drawBackground w)"
  have p1: "plain (bgCanvas ?w1)" and n1: "\<not> truthy (bgImageUrl (state ?w1))"
    using redraw_synchronous[OF assms, of Background] by (simp_all add: synchronous_def)
  show ?thesis
    unfolding Background
    by (simp add: drawBackground_color(1)[OF p1 n1]) (simp add: drawBackground_color(1)[OF p n])
next
  case Text
  have p: "plain (textCanvas w)" using assms by (simp add: synchronous_def)
  let ?w1 = "world_of (drawText w)"
  have p1: "plain (textCanvas ?w1)"
    using redraw_synchronous[OF assms, of Text] by (simp add: synchronous_def)
  have pen1: "pen (textCanvas ?w1) = text_pen w"
    by (subst drawText_canvas[OF p]) simp
  have wd: "width (textCanvas ?w1) = width (textCanvas w)"
    "height (textCanvas ?w1) = height (textCanvas w)"
    by (subst drawText_canvas[OF p], simp)+
  have ff: "font_family ?w1 = font_family w"
    by (simp add: font_family_def Let_def cong: if_cong)
  have tp: "text_pen ?w1 = text_pen w"
    unfolding text_pen_def[of ?w1] pen1 ff by (simp add: text_pen_def)
  have c1: "content (textCanvas (world_of (drawText ?w1))) = content (textCanvas ?w1)"
    by (simp add: drawText_content[OF p1] drawText_content[OF p] tp wd)
  have "textCanvas (world_of (drawText ?w1)) =
      (textCanvas ?w1)\<lparr>pen := text_pen ?w1,
                        content := content (textCanvas (world_of (drawText ?w1)))\<rparr>"
    by (rule drawText_canvas[OF p1])
  also have "\<dots> = (textCanvas ?w1)\<lparr>pen := pen (textCanvas ?w1),
                                   content := content (textCanvas ?w1)\<rparr>"
    by (simp only: tp c1 pen1)
  also have "\<dots> = textCanvas ?w1" by simp
  finally show ?thesis unfolding Text by simp
next
  case Icon
  have p: "plain (squareCanvas w)" using assms by (simp add: synchronous_def)
  have p1: "plain (squareCanvas (world_of (drawSquareImage w)))"
    using redraw_synchronous[OF assms, of Icon] by (simp add: synchronous_def)
  show ?thesis
    unfolding Icon by (simp add: drawSquareImage_canvas[OF p1]) (simp add: drawSquareImage_canvas[OF p])
next
  case Watermark
  have p: "plain (watermarkCanvas w)" using assms by (simp add: synchronous_def)
  have p1: "plain (watermarkCanvas (world_of (drawWatermark w)))"
    using redraw_synchronous[OF assms, of Watermark] by (simp add: synchronous_def)
  show ?thesis
    unfolding Watermark
    by (simp add: drawWatermark_canvas[OF p1])
       (simp add: drawWatermark_canvas[OF p] font_family_def Let_def cong: if_cong)
qed

lemma returned_if_not_thrown: "thrown r = None \<Longrightarrow> r = Returned (world_of r)"
  by (cases r) simp_all

lemma redraws_layers:
  assumes "synchronous w" and "acquired w"
  shows "thrown (redraws ls w) = None
     \<and> synchronous (world_of (redraws ls w)) \<and> acquired (world_of (redraws ls w))
     \<and> out_pen (world_of (redraws ls w)) = out_pen w
     \<and> state (world_of (redraws ls w)) = state w
     \<and> htmlFontFamily (world_of (redraws ls w)) = htmlFontFamily w
     \<and> (\<forall>l. layer_canvas l (world_of (redraws ls w)) =
            (if l \<in> set ls then layer_canvas l (world_of (redraw l w)) else layer_canvas l w))
     \<and> (ls \<noteq> [] \<longrightarrow>
          shown (world_of (redraws ls w)) =
            map (Pair (out_pen w))
              (composite (bgCanvas (world_of (redraws ls w)))
                 (textCanvas (world_of (redraws ls w)))
                 (squareCanvas (world_of (redraws ls w)))
                 (watermarkCanvas (world_of (redraws ls w)))))"
  using assms
proof (induction ls arbitrary: w)
  case Nil
  then show ?case by simp
next
  case (Cons a ls)
  define w1 where "w1 = world_of (redraw a w)"
  note sh = redraw_shown[OF Cons.prems, of a, folded w1_def]
  have r: "redraw a w = Returned w1"
    using returned_if_not_thrown[OF redraw_shown(1)[OF Cons.prems, of a]] by (simp add: w1_def)
  have s1: "synchronous w1" unfolding w1_def by (rule redraw_synchronous[OF Cons.prems(1)])
  have a1: "acquired w1" by (rule sh(2))
  have st: "state w1 = state w" "htmlFontFamily w1 = htmlFontFamily w"
    by (simp_all add: w1_def)
  note IH = Cons.IH[OF s1 a1]
  have e: "redraws (a # ls) w = redraws ls w1" by (simp add: r and_then_def)
  have lay: "layer_canvas l (world_of (redraws ls w1)) =
      (if l \<in> set (a # ls) then layer_canvas l (world_of (redraw l w)) else layer_canvas l w)"
    for l
  proof (cases "l = a")
    case True
    have "layer_canvas a (world_of (redraw a w1)) = layer_canvas a w1"
      unfolding w1_def by (rule redraw_idem[OF Cons.prems(1)])
    then show ?thesis using IH by (simp add: True w1_def)
  next
    case False
    have o: "layer_canvas l w1 = layer_canvas l w"
      unfolding w1_def by (rule redraw_other[OF False])
    have "layer_canvas l (world_of (redraw l w1)) = layer_canvas l (world_of (redraw l w))"
      by (rule redraw_own[OF st o])
    then show ?thesis using IH False o by simp
  qed
  have shw: "shown (world_of (redraws ls w1)) =
      map (Pair (out_pen w))
        (composite (bgCanvas (world_of (redraws ls w1))) (textCanvas (world_of (redraws ls w1)))
           (squareCanvas (world_of (redraws ls w1))) (watermarkCanvas (world_of (redraws ls w1))))"
  proof (cases "ls = []")
    case True
    then show ?thesis using sh(4) by simp
  next
    case False
    then show ?thesis using IH sh(3) by simp
  qed
  show ?case
    unfolding e using IH lay shw sh(3) st by simp
qed

lemma initialize_page_world:
  "initialize page_world =
     redraws [Background, Text, Watermark, Icon] (page_world\<lparr>canvas := Some 0, ctx := Some 0\<rparr>)"
proof -
  have a: "and_then r Returned = r" for r by (cases r) (simp_all add: and_then_def)
  have b: "redraws (l # ls) = (\<lambda>w. and_then (redraw l w) (redraws ls))" for l ls
    by (rule ext) simp
  have c: "redraws [] = Returned" by (rule ext) simp
  have d: "redraw Icon = drawSquareImage" by (rule ext) simp
  have "redraws [Background, Text, Watermark, Icon] u =
      and_then (drawBackground u) (\<lambda>w. and_then (drawText w)
        (\<lambda>w. and_then (drawWatermark w) drawSquareImage))" for u
    by (simp add: b c a d)
  then show ?thesis
    by (simp add: initialize_def page_world_def initial_world_def Let_def)
qed

lemma ready_world_ok: "synchronous ready_world" "acquired ready_world"
proof -
  let ?w = "page_world\<lparr>canvas := Some 0, ctx := Some 0\<rparr>"
  have s: "synchronous ?w"
    by (simp add: synchronous_def page_world_def initial_world_def initial_state_def truthy_def
        plain_def createCanvas_def default_pen_def)
  have a: "acquired ?w"
    by (simp add: acquired_def page_world_def initial_world_def plain_def createCanvas_def
        default_pen_def)
  show "synchronous ready_world" "acquired ready_world"
    using redraws_layers[OF s a, of "[Background, Text, Watermark, Icon]"]
    by (simp_all add: ready_world_def initialize_page_world)
qed

text \<open>
  Redraws in any render state, with or without an image awaited: a redraw changes its own
  layer only, from the state and that layer, and redrawing a layer twice leaves what
  redrawing it once leaves.
\<close>

lemma layers_plain_layers: "layers_plain w \<longleftrightarrow> (\<forall>l. plain (layer_canvas l w))"
proof -
  have "(\<forall>l. plain (layer_canvas l w)) \<longleftrightarrow>
      plain (bgCanvas w) \<and> plain (textCanvas w) \<and> plain (squareCanvas w)
      \<and> plain (watermarkCanvas w)"
    by (metis layer.exhaust layer_canvas.simps)
  then show ?thesis by (simp add: layers_plain_def)
qed

lemma drawBackground_canvas:
  assumes "plain (bgCanvas w)"
  shows "plain (bgCanvas (world_of (drawBackground w)))"
    and "bgCanvas (world_of (drawBackground (world_of (drawBackground w)))) =
         bgCanvas (world_of (drawBackground w))"
proof -
  let ?w1 = "world_of (drawBackground w)"
  show p1: "plain (bgCanvas ?w1)"
  proof (cases "truthy (bgImageUrl (state w))")
    case True
    then show ?thesis using assms by (simp add: drawBackground_image) (simp add: plain_def)
  next
    case False
    then show ?thesis using assms by (simp add: drawBackground_color(1)) (simp add: plain_def)
  qed
  show "bgCanvas (world_of (drawBackground ?w1)) = bgCanvas ?w1"
  proof (cases "truthy (bgImageUrl (state w))")
    case True
    then have t1: "truthy (bgImageUrl (state ?w1))" by simp
    show ?thesis
      by (simp add: drawBackground_image[OF p1 t1]) (simp add: drawBackground_image[OF assms True])
  next
    case False
    then have n1: "\<not> truthy (bgImageUrl (state ?w1))" by simp
    show ?thesis
      by (simp add: drawBackground_color(1)[OF p1 n1]) (simp add: drawBackground_color(1)[OF assms False])
  qed
qed

lemma redraw_plain_own:
  assumes "plain (layer_canvas a w)"
  shows "plain (layer_canvas a (world_of (redraw a w)))"
proof (cases a)
  case Background
  with assms show ?thesis by (simp add: drawBackground_canvas(1))
next
  case Text
  with assms have p: "plain (textCanvas w)" by simp
  have "plain (textCanvas (world_of (drawText w)))"
    by (subst drawText_canvas[OF p]) (use p in \<open>simp add: plain_def text_pen_def\<close>)
  with Text show ?thesis by simp
next
  case Icon
  with assms show ?thesis by (simp add: drawSquareImage_canvas) (simp add: plain_def)
next
  case Watermark
  with assms show ?thesis by (simp add: drawWatermark_canvas) (simp add: plain_def)
qed

lemma redraw_layers_plain:
  assumes "layers_plain w"
  shows "layers_plain (world_of (redraw a w))"
  unfolding layers_plain_layers
proof
  fix l
  from assms have p: "plain (layer_canvas l w)" "plain (layer_canvas a w)"
    by (simp_all add: layers_plain_layers)
  show "plain (layer_canvas l (world_of (redraw a w)))"
  proof (cases "l = a")
    case True
    then show ?thesis using redraw_plain_own[OF p(2)] by simp
  next
    case False
    then show ?thesis using p(1) by (simp add: redraw_other)
  qed
qed

lemma redraw_again:
  assumes "plain (layer_canvas a w)"
  shows "layer_canvas a (world_of (redraw a (world_of (redraw a w)))) =
         layer_canvas a (world_of (redraw a w))"
proof (cases a)
  case Background
  with assms show ?thesis by (simp add: drawBackground_canvas(2))
next
  case Text
  have p: "plain (textCanvas w)" using assms Text by simp
  let ?w1 = "world_of (drawText w)"
  have p1: "plain (textCanvas ?w1)"
    using redraw_plain_own[of Text w] p by simp
  have pen1: "pen (textCanvas ?w1) = text_pen w"
    by (subst drawText_canvas[OF p]) simp
  have wd: "width (textCanvas ?w1) = width (textCanvas w)"
    "height (textCanvas ?w1) = height (textCanvas w)"
    by (subst drawText_canvas[OF p], simp)+
  have ff: "font_family ?w1 = font_family w"
    by (simp add: font_family_def Let_def cong: if_cong)
  have tp: "text_pen ?w1 = text_pen w"
    unfolding text_pen_def[of ?w1] pen1 ff by (simp add: text_pen_def)
  have c1: "content (textCanvas (world_of (drawText ?w1))) = content (textCanvas ?w1)"
    by (simp add: drawText_content[OF p1] drawText_content[OF p] tp wd)
  have "textCanvas (world_of (drawText ?w1)) =
      (textCanvas ?w1)\<lparr>pen := text_pen ?w1,
                        content := content (textCanvas (world_of (drawText ?w1)))\<rparr>"
    by (rule drawText_canvas[OF p1])
  also have "\<dots> = (textCanvas ?w1)\<lparr>pen := pen (textCanvas ?w1),
                                   content := content (textCanvas ?w1)\<rparr>"
    by (simp only: tp c1 pen1)
  also have "\<dots> = textCanvas ?w1" by simp
  finally show ?thesis unfolding Text by simp
next
  case Icon
  have p: "plain (squareCanvas w)" using assms Icon by simp
  have p1: "plain (squareCanvas (world_of (drawSquareImage w)))"
    using redraw_plain_own[of Icon w] p by simp
  show ?thesis
    unfolding Icon by (simp add: drawSquareImage_canvas[OF p1]) (simp add: drawSquareImage_canvas[OF p])
next
  case Watermark
  have p: "plain (watermarkCanvas w)" using assms Watermark by simp
  have p1: "plain (watermarkCanvas (world_of (drawWatermark w)))"
    using redraw_plain_own[of Watermark w] p by simp
  show ?thesis
    unfolding Watermark
    by (simp add: drawWatermark_canvas[OF p1])
       (simp add: drawWatermark_canvas[OF p] font_family_def Let_def cong: if_cong)
qed

lemma redraw_cases:
  "\<exists>u. (redraw a w = composeCanvases u \<or> redraw a w = Returned u)
       \<and> ctx u = ctx w \<and> canvas u = canvas w \<and> elements u = elements w"
proof (cases a)
  case Background
  show ?thesis
  proof (cases "truthy (bgImageUrl (state w))")
    case True
    then show ?thesis unfolding Background
      by (intro exI[of _ "world_of (drawBackground w)"]) (simp add: drawBackground_def Let_def)
  next
    case False
    with drawBackground_eq[of w] show ?thesis unfolding Background
      by (intro exI[of _ "w\<lparr>calls := calls w @ [Call_drawBackground],
          bgCanvas := bgCanvas (world_of (drawBackground w))\<rparr>"]) simp
  qed
next
  case Text
  with drawText_eq[of w] show ?thesis
    by (intro exI[of _ "w\<lparr>calls := calls w @ [Call_drawText],
          textCanvas := textCanvas (world_of (drawText w))\<rparr>"]) simp
next
  case Icon
  show ?thesis
  proof (cases "truthy (squareImageUrl (state w))")
    case True
    then show ?thesis unfolding Icon
      by (intro exI[of _ "world_of (drawSquareImage w)"]) (simp add: drawSquareImage_def Let_def)
  next
    case False
    with drawSquareImage_eq[of w] show ?thesis unfolding Icon
      by (intro exI[of _ "w\<lparr>calls := calls w @ [Call_drawSquareImage],
          squareCanvas := squareCanvas (world_of (drawSquareImage w))\<rparr>"]) simp
  qed
next
  case Watermark
  with drawWatermark_eq[of w] show ?thesis
    by (intro exI[of _ "w\<lparr>calls := calls w @ [Call_drawWatermark],
          watermarkCanvas := watermarkCanvas (world_of (drawWatermark w))\<rparr>"]) simp
qed

lemma redraw_acquired:
  assumes "acquired w"
  shows "thrown (redraw a w) = None"
    and "acquired (world_of (redraw a w))"
    and "out_pen (world_of (redraw a w)) = out_pen w"
proof -
  from redraw_cases[of a w] obtain u where
    u: "redraw a w = composeCanvases u \<or> redraw a w = Returned u"
       "ctx u = ctx w" "canvas u = canvas w" "elements u = elements w"
    by blast
  have au: "acquired u" and pu: "out_pen u = out_pen w"
    using assms u(2,3,4) by (auto simp: acquired_def out_pen_def split: option.splits)
  show "thrown (redraw a w) = None" and "acquired (world_of (redraw a w))"
    and "out_pen (world_of (redraw a w)) = out_pen w"
    using u(1) composeCanvases_shown[OF au] pu au by auto
qed

lemma redraws_any:
  assumes "acquired w" and "layers_plain w"
  shows "thrown (redraws ls w) = None
     \<and> acquired (world_of (redraws ls w)) \<and> layers_plain (world_of (redraws ls w))
     \<and> out_pen (world_of (redraws ls w)) = out_pen w
     \<and> state (world_of (redraws ls w)) = state w
     \<and> htmlFontFamily (world_of (redraws ls w)) = htmlFontFamily w
     \<and> (\<forall>l. layer_canvas l (world_of (redraws ls w)) =
            (if l \<in> set ls then layer_canvas l (world_of (redraw l w)) else layer_canvas l w))"
  using assms
proof (induction ls arbitrary: w)
  case Nil
  then show ?case by simp
next
  case (Cons a ls)
  define w1 where "w1 = world_of (redraw a w)"
  note ra = redraw_acquired[OF Cons.prems(1), of a, folded w1_def]
  have r: "redraw a w = Returned w1"
    using returned_if_not_thrown[OF redraw_acquired(1)[OF Cons.prems(1), of a]]
    by (simp add: w1_def)
  have p1: "layers_plain w1" unfolding w1_def by (rule redraw_layers_plain[OF Cons.prems(2)])
  have st: "state w1 = state w" "htmlFontFamily w1 = htmlFontFamily w"
    by (simp_all add: w1_def)
  note IH = Cons.IH[OF ra(2) p1]
  have e: "redraws (a # ls) w = redraws ls w1" by (simp add: r and_then_def)
  have pa: "plain (layer_canvas a w)"
    using Cons.prems(2) by (simp add: layers_plain_layers)
  have lay: "layer_canvas l (world_of (redraws ls w1)) =
      (if l \<in> set (a # ls) then layer_canvas l (world_of (redraw l w)) else layer_canvas l w)"
    for l
  proof (cases "l = a")
    case True
    have "layer_canvas a (world_of (redraw a w1)) = layer_canvas a w1"
      unfolding w1_def by (rule redraw_again[OF pa])
    then show ?thesis using IH by (simp add: True w1_def)
  next
    case False
    have o: "layer_canvas l w1 = layer_canvas l w"
      unfolding w1_def by (rule redraw_other[OF False])
    have "layer_canvas l (world_of (redraw l w1)) = layer_canvas l (world_of (redraw l w))"
      by (rule redraw_own[OF st o])
    then show ?thesis using IH False o by simp
  qed
  show ?case
    unfolding e using IH lay ra(3) st by simp
qed

lemma redraws_layer_surfaces:
  assumes "acquired w" and "layers_plain w" and "set ls = set ls'"
  shows "layer_surfaces (world_of (redraws ls w)) = layer_surfaces (world_of (redraws ls' w))"
proof -
  note A = redraws_any[OF assms(1,2), of ls] and B = redraws_any[OF assms(1,2), of ls']
  have l: "layer_canvas l (world_of (redraws ls w)) = layer_canvas l (world_of (redraws ls' w))"
    for l using A B assms(3) by simp
  from l[of Background] l[of Text] l[of Icon] l[of Watermark]
  show ?thesis by (simp add: layer_surfaces_def)
qed

lemma redraws_recomposited:
  assumes "acquired w" and "layers_plain w" and "set ls = set ls'"
  shows "shown (world_of (composeCanvases (world_of (redraws ls w)))) =
         shown (world_of (composeCanvases (world_of (redraws ls' w))))"
proof -
  note A = redraws_any[OF assms(1,2), of ls] and B = redraws_any[OF assms(1,2), of ls']
  have a: "acquired (world_of (redraws ls w))" and b: "acquired (world_of (redraws ls' w))"
    using A B by simp_all
  have p: "out_pen (world_of (redraws ls w)) = out_pen (world_of (redraws ls' w))"
    using A B by simp
  from redraws_layer_surfaces[OF assms]
  show ?thesis
    by (simp add: composeCanvases_shown(2)[OF a] composeCanvases_shown(2)[OF b] p
        layer_surfaces_def)
qed

text \<open>
  The image loads that redraws start, and the composite that a redraw awaiting no image
  leaves on the output surface.
\<close>

lemma loads_cong: "state v = state w \<Longrightarrow> loads l v = loads l w"
  by (cases l) simp_all

lemma redraw_loads: "pending (world_of (redraw a w)) = pending w @ loads a w"
  by (cases a; simp add: draw_defs Let_def)

lemma redraw_composites:
  assumes "loads a w = []"
  shows "\<exists>u. redraw a w = composeCanvases u \<and> ctx u = ctx w \<and> canvas u = canvas w
           \<and> elements u = elements w"
proof (cases a)
  case Background
  with assms have "\<not> truthy (bgImageUrl (state w))" by (simp split: if_splits)
  with drawBackground_eq[of w] show ?thesis unfolding Background
    by (intro exI[of _ "w\<lparr>calls := calls w @ [Call_drawBackground],
          bgCanvas := bgCanvas (world_of (drawBackground w))\<rparr>"]) simp
next
  case Text
  with drawText_eq[of w] show ?thesis
    by (intro exI[of _ "w\<lparr>calls := calls w @ [Call_drawText],
          textCanvas := textCanvas (world_of (drawText w))\<rparr>"]) simp
next
  case Icon
  with assms have "\<not> truthy (squareImageUrl (state w))" by (simp split: if_splits)
  with drawSquareImage_eq[of w] show ?thesis unfolding Icon
    by (intro exI[of _ "w\<lparr>calls := calls w @ [Call_drawSquareImage],
          squareCanvas := squareCanvas (world_of (drawSquareImage w))\<rparr>"]) simp
next
  case Watermark
  with drawWatermark_eq[of w] show ?thesis
    by (intro exI[of _ "w\<lparr>calls := calls w @ [Call_drawWatermark],
          watermarkCanvas := watermarkCanvas (world_of (drawWatermark w))\<rparr>"]) simp
qed

lemma redraw_composite:
  assumes "acquired w" and "loads a w = []"
  shows "shown (world_of (redraw a w)) =
      map (Pair (out_pen w))
        (composite (bgCanvas (world_of (redraw a w))) (textCanvas (world_of (redraw a w)))
           (squareCanvas (world_of (redraw a w))) (watermarkCanvas (world_of (redraw a w))))"
proof -
  from redraw_composites[OF assms(2)] obtain u where
    u: "redraw a w = composeCanvases u" "ctx u = ctx w" "canvas u = canvas w"
       "elements u = elements w"
    by blast
  have au: "acquired u" and pu: "out_pen u = out_pen w"
    using assms(1) u(2,3,4) by (auto simp: acquired_def out_pen_def split: option.splits)
  show ?thesis using composeCanvases_shown(2)[OF au] pu by (simp add: u(1))
qed

lemma redraws_loads:
  assumes "acquired w" and "layers_plain w"
  shows "pending (world_of (redraws ls w)) = pending w @ concat (map (\<lambda>l. loads l w) ls)"
  using assms
proof (induction ls arbitrary: w)
  case Nil
  then show ?case by simp
next
  case (Cons a ls)
  define w1 where "w1 = world_of (redraw a w)"
  have r: "redraw a w = Returned w1"
    using returned_if_not_thrown[OF redraw_acquired(1)[OF Cons.prems(1), of a]]
    by (simp add: w1_def)
  have a1: "acquired w1" unfolding w1_def by (rule redraw_acquired(2)[OF Cons.prems(1)])
  have p1: "layers_plain w1" unfolding w1_def by (rule redraw_layers_plain[OF Cons.prems(2)])
  have st: "state w1 = state w" by (simp add: w1_def)
  have l: "(\<lambda>l. loads l w1) = (\<lambda>l. loads l w)" using loads_cong[OF st] by (rule ext)
  have q: "pending w1 = pending w @ loads a w" by (simp add: w1_def redraw_loads)
  show ?case using Cons.IH[OF a1 p1] by (simp add: r and_then_def q l)
qed

lemma redraws_composite:
  assumes "acquired w" and "layers_plain w" and "ls \<noteq> []" and "loads (last ls) w = []"
  shows "shown (world_of (redraws ls w)) =
      map (Pair (out_pen w))
        (composite (bgCanvas (world_of (redraws ls w))) (textCanvas (world_of (redraws ls w)))
           (squareCanvas (world_of (redraws ls w))) (watermarkCanvas (world_of (redraws ls w))))"
  using assms
proof (induction ls arbitrary: w)
  case Nil
  then show ?case by simp
next
  case (Cons a ls)
  define w1 where "w1 = world_of (redraw a w)"
  have r: "redraw a w = Returned w1"
    using returned_if_not_thrown[OF redraw_acquired(1)[OF Cons.prems(1), of a]]
    by (simp add: w1_def)
  have a1: "acquired w1" unfolding w1_def by (rule redraw_acquired(2)[OF Cons.prems(1)])
  have p1: "layers_plain w1" unfolding w1_def by (rule redraw_layers_plain[OF Cons.prems(2)])
  have o1: "out_pen w1 = out_pen w" unfolding w1_def by (rule redraw_acquired(3)[OF Cons.prems(1)])
  have st: "state w1 = state w" by (simp add: w1_def)
  have e: "redraws (a # ls) w = redraws ls w1" by (simp add: r and_then_def)
  show ?case
  proof (cases "ls = []")
    case True
    with Cons.prems(4) have "loads a w = []" by simp
    from redraw_composite[OF Cons.prems(1) this] show ?thesis
      unfolding e by (simp add: True w1_def)
  next
    case False
    with Cons.prems(4) have "loads (last ls) w1 = []" by (simp add: loads_cong[OF st])
    from Cons.IH[OF a1 p1 False this] show ?thesis unfolding e by (simp add: o1)
  qed
qed

text \<open>The completions of the loads.\<close>

lemma drawBackground_onload_eq:
  "drawBackground_onload im w =
     composeCanvases (w\<lparr>bgCanvas := bgCanvas (world_of (drawBackground_onload im w))\<rparr>)"
  by (simp add: drawBackground_onload_def Let_def split: prod.splits)

lemma drawSquareImage_onload_eq:
  "drawSquareImage_onload im w =
     composeCanvases (w\<lparr>squareCanvas := squareCanvas (world_of (drawSquareImage_onload im w))\<rparr>)"
  by (simp add: drawSquareImage_onload_def Let_def split: prod.splits)

lemma drawBackground_onload_frame [simp]:
  "state (world_of (drawBackground_onload im w)) = state w"
  "pending (world_of (drawBackground_onload im w)) = pending w"
  "textCanvas (world_of (drawBackground_onload im w)) = textCanvas w"
  "squareCanvas (world_of (drawBackground_onload im w)) = squareCanvas w"
  "watermarkCanvas (world_of (drawBackground_onload im w)) = watermarkCanvas w"
  by (subst drawBackground_onload_eq, simp)+

lemma drawSquareImage_onload_frame [simp]:
  "state (world_of (drawSquareImage_onload im w)) = state w"
  "pending (world_of (drawSquareImage_onload im w)) = pending w"
  "textCanvas (world_of (drawSquareImage_onload im w)) = textCanvas w"
  "bgCanvas (world_of (drawSquareImage_onload im w)) = bgCanvas w"
  "watermarkCanvas (world_of (drawSquareImage_onload im w)) = watermarkCanvas w"
  by (subst drawSquareImage_onload_eq, simp)+

lemma drawBackground_onload_own:
  "state v = state w \<Longrightarrow> bgCanvas v = bgCanvas w \<Longrightarrow>
   bgCanvas (world_of (drawBackground_onload im v)) =
   bgCanvas (world_of (drawBackground_onload im w))"
  by (simp add: drawBackground_onload_def Let_def split: prod.splits)

lemma drawSquareImage_onload_own:
  "state v = state w \<Longrightarrow> squareCanvas v = squareCanvas w \<Longrightarrow>
   squareCanvas (world_of (drawSquareImage_onload im v)) =
   squareCanvas (world_of (drawSquareImage_onload im w))"
  by (simp add: drawSquareImage_onload_def Let_def split: prod.splits)

lemma drawBackground_onload_acquired:
  assumes "acquired w"
  shows "thrown (drawBackground_onload im w) = None"
    and "acquired (world_of (drawBackground_onload im w))"
    and "out_pen (world_of (drawBackground_onload im w)) = out_pen w"
    and "shown (world_of (drawBackground_onload im w)) =
      map (Pair (out_pen w))
        (composite (bgCanvas (world_of (drawBackground_onload im w))) (textCanvas w)
           (squareCanvas w) (watermarkCanvas w))"
proof -
  let ?u = "w\<lparr>bgCanvas := bgCanvas (world_of (drawBackground_onload im w))\<rparr>"
  have au: "acquired ?u" and pu: "out_pen ?u = out_pen w"
    using assms by (auto simp: acquired_def out_pen_def split: option.splits)
  have e: "drawBackground_onload im w = composeCanvases ?u" by (rule drawBackground_onload_eq)
  show "thrown (drawBackground_onload im w) = None"
    using composeCanvases_shown(1)[OF au] by (simp add: e[symmetric])
  show "acquired (world_of (drawBackground_onload im w))"
    using composeCanvases_shown(3)[OF au] by (simp add: e[symmetric])
  show "out_pen (world_of (drawBackground_onload im w)) = out_pen w"
    using composeCanvases_shown(4)[OF au] pu by (simp add: e[symmetric])
  show "shown (world_of (drawBackground_onload im w)) =
      map (Pair (out_pen w))
        (composite (bgCanvas (world_of (drawBackground_onload im w))) (textCanvas w)
           (squareCanvas w) (watermarkCanvas w))"
    using composeCanvases_shown(2)[OF au] pu by (simp add: e[symmetric])
qed

lemma drawSquareImage_onload_acquired:
  assumes "acquired w"
  shows "thrown (drawSquareImage_onload im w) = None"
    and "acquired (world_of (drawSquareImage_onload im w))"
    and "out_pen (world_of (drawSquareImage_onload im w)) = out_pen w"
    and "shown (world_of (drawSquareImage_onload im w)) =
      map (Pair (out_pen w))
        (composite (bgCanvas w) (textCanvas w)
           (squareCanvas (world_of (drawSquareImage_onload im w))) (watermarkCanvas w))"
proof -
  let ?u = "w\<lparr>squareCanvas := squareCanvas (world_of (drawSquareImage_onload im w))\<rparr>"
  have au: "acquired ?u" and pu: "out_pen ?u = out_pen w"
    using assms by (auto simp: acquired_def out_pen_def split: option.splits)
  have e: "drawSquareImage_onload im w = composeCanvases ?u" by (rule drawSquareImage_onload_eq)
  show "thrown (drawSquareImage_onload im w) = None"
    using composeCanvases_shown(1)[OF au] by (simp add: e[symmetric])
  show "acquired (world_of (drawSquareImage_onload im w))"
    using composeCanvases_shown(3)[OF au] by (simp add: e[symmetric])
  show "out_pen (world_of (drawSquareImage_onload im w)) = out_pen w"
    using composeCanvases_shown(4)[OF au] pu by (simp add: e[symmetric])
  show "shown (world_of (drawSquareImage_onload im w)) =
      map (Pair (out_pen w))
        (composite (bgCanvas w) (textCanvas w)
           (squareCanvas (world_of (drawSquareImage_onload im w))) (watermarkCanvas w))"
    using composeCanvases_shown(2)[OF au] pu by (simp add: e[symmetric])
qed

lemma bg_loads_own:
  assumes "state v = state w" and "bgCanvas v = bgCanvas w"
  shows "bgCanvas (((\<lambda>w. world_of (drawBackground_onload im w)) ^^ k) v) =
         bgCanvas (((\<lambda>w. world_of (drawBackground_onload im w)) ^^ k) w)
       \<and> state (((\<lambda>w. world_of (drawBackground_onload im w)) ^^ k) v) = state v
       \<and> state (((\<lambda>w. world_of (drawBackground_onload im w)) ^^ k) w) = state w"
proof (induction k)
  case 0
  then show ?case using assms by simp
next
  case (Suc k)
  then show ?case using assms by (simp add: drawBackground_onload_own)
qed

lemma icon_loads_own:
  assumes "state v = state w" and "squareCanvas v = squareCanvas w"
  shows "squareCanvas (((\<lambda>w. world_of (drawSquareImage_onload im w)) ^^ k) v) =
         squareCanvas (((\<lambda>w. world_of (drawSquareImage_onload im w)) ^^ k) w)
       \<and> state (((\<lambda>w. world_of (drawSquareImage_onload im w)) ^^ k) v) = state v
       \<and> state (((\<lambda>w. world_of (drawSquareImage_onload im w)) ^^ k) w) = state w"
proof (induction k)
  case 0
  then show ?case using assms by simp
next
  case (Suc k)
  then show ?case using assms by (simp add: drawSquareImage_onload_own)
qed

lemma run_pending_at:
  assumes "pending a = P @ t # T"
  shows "run_pending env (length P) a = fire env t (a\<lparr>pending := P @ T\<rparr>)"
  using assms by (simp add: run_pending_def)

lemma settle_loads:
  assumes "acquired a" and "pending a = P @ T"
    and "\<forall>t\<in>set T. (t = BgOnload ub \<and> decode env ub = Some bi)
                 \<or> (t = SquareOnload us \<and> decode env us = Some ic)"
  shows "thrown (settle env (length P) (length T) a) = None
     \<and> acquired (world_of (settle env (length P) (length T) a))
     \<and> pending (world_of (settle env (length P) (length T) a)) = P
     \<and> state (world_of (settle env (length P) (length T) a)) = state a
     \<and> out_pen (world_of (settle env (length P) (length T) a)) = out_pen a
     \<and> bgCanvas (world_of (settle env (length P) (length T) a)) =
         bgCanvas (((\<lambda>w. world_of (drawBackground_onload bi w)) ^^ count_list T (BgOnload ub)) a)
     \<and> squareCanvas (world_of (settle env (length P) (length T) a)) =
         squareCanvas (((\<lambda>w. world_of (drawSquareImage_onload ic w))
                          ^^ count_list T (SquareOnload us)) a)
     \<and> textCanvas (world_of (settle env (length P) (length T) a)) = textCanvas a
     \<and> watermarkCanvas (world_of (settle env (length P) (length T) a)) = watermarkCanvas a
     \<and> shown (world_of (settle env (length P) (length T) a)) =
         (if T = [] then shown a
          else map (Pair (out_pen a))
                 (composite (bgCanvas (world_of (settle env (length P) (length T) a)))
                    (textCanvas (world_of (settle env (length P) (length T) a)))
                    (squareCanvas (world_of (settle env (length P) (length T) a)))
                    (watermarkCanvas (world_of (settle env (length P) (length T) a)))))"
  using assms
proof (induction T arbitrary: a)
  case Nil
  then show ?case by simp
next
  case (Cons t T)
  let ?Fb = "\<lambda>w. world_of (drawBackground_onload bi w)"
  let ?Fs = "\<lambda>w. world_of (drawSquareImage_onload ic w)"
  define a0 where "a0 = a\<lparr>pending := P @ T\<rparr>"
  have a0: "acquired a0" "out_pen a0 = out_pen a" "state a0 = state a"
    "bgCanvas a0 = bgCanvas a" "squareCanvas a0 = squareCanvas a" "textCanvas a0 = textCanvas a"
    "watermarkCanvas a0 = watermarkCanvas a" "pending a0 = P @ T"
    using Cons.prems(1) by (auto simp: a0_def acquired_def out_pen_def split: option.splits)
  have rp: "run_pending env (length P) a = fire env t a0"
    unfolding a0_def by (rule run_pending_at[OF Cons.prems(2)])
  have rest: "\<forall>t\<in>set T. (t = BgOnload ub \<and> decode env ub = Some bi)
                 \<or> (t = SquareOnload us \<and> decode env us = Some ic)"
    using Cons.prems(3) by simp
  from Cons.prems(3) consider
      (bg) "t = BgOnload ub" "decode env ub = Some bi"
    | (sq) "t = SquareOnload us" "decode env us = Some ic"
    by auto
  then show ?case
  proof cases
    case bg
    define a1 where "a1 = ?Fb a0"
    note on = drawBackground_onload_acquired[OF a0(1), of bi, folded a1_def]
    have f: "fire env t a0 = Returned a1"
      using returned_if_not_thrown[OF drawBackground_onload_acquired(1)[OF a0(1), of bi]]
      by (simp add: bg a1_def)
    have a1: "state a1 = state a" "pending a1 = P @ T" "textCanvas a1 = textCanvas a"
      "squareCanvas a1 = squareCanvas a" "watermarkCanvas a1 = watermarkCanvas a"
      "out_pen a1 = out_pen a"
      using a0 on(3) by (simp_all add: a1_def)
    note IH = Cons.IH[OF on(2) a1(2) rest]
    have e: "settle env (length P) (length (t # T)) a = settle env (length P) (length T) a1"
      by (simp add: rp f and_then_def)
    have cb: "count_list (t # T) (BgOnload ub) = Suc (count_list T (BgOnload ub))"
      and cs: "count_list (t # T) (SquareOnload us) = count_list T (SquareOnload us)"
      by (simp_all add: bg)
    have b1: "bgCanvas ((?Fb ^^ count_list T (BgOnload ub)) a1) =
        bgCanvas ((?Fb ^^ Suc (count_list T (BgOnload ub))) a)"
    proof -
      have "(?Fb ^^ count_list T (BgOnload ub)) a1 = (?Fb ^^ Suc (count_list T (BgOnload ub))) a0"
        unfolding a1_def using funpow_swap1[of ?Fb "count_list T (BgOnload ub)" a0] by simp
      moreover have "bgCanvas ((?Fb ^^ Suc (count_list T (BgOnload ub))) a0) =
          bgCanvas ((?Fb ^^ Suc (count_list T (BgOnload ub))) a)"
        using bg_loads_own[OF a0(3,4), where im = bi and k = "Suc (count_list T (BgOnload ub))"] by blast
      ultimately show ?thesis by simp
    qed
    have s1: "squareCanvas ((?Fs ^^ count_list T (SquareOnload us)) a1) =
        squareCanvas ((?Fs ^^ count_list T (SquareOnload us)) a)"
      using icon_loads_own[OF a1(1,4), where im = ic and k = "count_list T (SquareOnload us)"] by blast
    have sh: "T = [] \<Longrightarrow> shown a1 =
        map (Pair (out_pen a))
          (composite (bgCanvas a1) (textCanvas a1) (squareCanvas a1) (watermarkCanvas a1))"
      using on(4) a0 a1 by simp
    show ?thesis
      unfolding e cb cs using IH b1 s1 a1 sh by (cases "T = []") simp_all
  next
    case sq
    define a1 where "a1 = ?Fs a0"
    note on = drawSquareImage_onload_acquired[OF a0(1), of ic, folded a1_def]
    have f: "fire env t a0 = Returned a1"
      using returned_if_not_thrown[OF drawSquareImage_onload_acquired(1)[OF a0(1), of ic]]
      by (simp add: sq a1_def)
    have a1: "state a1 = state a" "pending a1 = P @ T" "textCanvas a1 = textCanvas a"
      "bgCanvas a1 = bgCanvas a" "watermarkCanvas a1 = watermarkCanvas a"
      "out_pen a1 = out_pen a"
      using a0 on(3) by (simp_all add: a1_def)
    note IH = Cons.IH[OF on(2) a1(2) rest]
    have e: "settle env (length P) (length (t # T)) a = settle env (length P) (length T) a1"
      by (simp add: rp f and_then_def)
    have cs: "count_list (t # T) (SquareOnload us) = Suc (count_list T (SquareOnload us))"
      and cb: "count_list (t # T) (BgOnload ub) = count_list T (BgOnload ub)"
      by (simp_all add: sq)
    have s1: "squareCanvas ((?Fs ^^ count_list T (SquareOnload us)) a1) =
        squareCanvas ((?Fs ^^ Suc (count_list T (SquareOnload us))) a)"
    proof -
      have "(?Fs ^^ count_list T (SquareOnload us)) a1 =
          (?Fs ^^ Suc (count_list T (SquareOnload us))) a0"
        unfolding a1_def using funpow_swap1[of ?Fs "count_list T (SquareOnload us)" a0] by simp
      moreover have "squareCanvas ((?Fs ^^ Suc (count_list T (SquareOnload us))) a0) =
          squareCanvas ((?Fs ^^ Suc (count_list T (SquareOnload us))) a)"
        using icon_loads_own[OF a0(3,5), where im = ic and k = "Suc (count_list T (SquareOnload us))"] by blast
      ultimately show ?thesis by simp
    qed
    have b1: "bgCanvas ((?Fb ^^ count_list T (BgOnload ub)) a1) =
        bgCanvas ((?Fb ^^ count_list T (BgOnload ub)) a)"
      using bg_loads_own[OF a1(1,4), where im = bi and k = "count_list T (BgOnload ub)"] by blast
    have sh: "T = [] \<Longrightarrow> shown a1 =
        map (Pair (out_pen a))
          (composite (bgCanvas a1) (textCanvas a1) (squareCanvas a1) (watermarkCanvas a1))"
      using on(4) a0 a1 by simp
    show ?thesis
      unfolding e cb cs using IH b1 s1 a1 sh by (cases "T = []") simp_all
  qed
qed

text \<open>The loads started by a sequence of redraws, counted by layer.\<close>

lemma loads_tasks:
  "\<forall>t\<in>set (concat (map (\<lambda>l. loads l w) ls)).
      (t = BgOnload (string_of (bgImageUrl (state w))) \<and> truthy (bgImageUrl (state w)))
    \<or> (t = SquareOnload (string_of (squareImageUrl (state w)))
        \<and> truthy (squareImageUrl (state w)))"
proof (induction ls)
  case Nil
  then show ?case by simp
next
  case (Cons l ls)
  then show ?case by (cases l) auto
qed

lemma loads_count_bg:
  "count_list (concat (map (\<lambda>l. loads l w) ls)) (BgOnload (string_of (bgImageUrl (state w)))) =
     (if truthy (bgImageUrl (state w)) then count_list ls Background else 0)"
proof (induction ls)
  case Nil
  show ?case by simp
next
  case (Cons l ls)
  then show ?case by (cases l) simp_all
qed

lemma loads_count_icon:
  "count_list (concat (map (\<lambda>l. loads l w) ls))
       (SquareOnload (string_of (squareImageUrl (state w)))) =
     (if truthy (squareImageUrl (state w)) then count_list ls Icon else 0)"
proof (induction ls)
  case Nil
  show ?case by simp
next
  case (Cons l ls)
  then show ?case by (cases l) simp_all
qed

lemma loads_length:
  "length (concat (map (\<lambda>l. loads l w) ls)) =
     (if truthy (bgImageUrl (state w)) then count_list ls Background else 0)
     + (if truthy (squareImageUrl (state w)) then count_list ls Icon else 0)"
proof (induction ls)
  case Nil
  show ?case by simp
next
  case (Cons l ls)
  then show ?case by (cases l) simp_all
qed

lemmas loads_count = loads_count_bg loads_count_icon loads_length

lemma loads_none:
  assumes "concat (map (\<lambda>l. loads l w) ls) = []" and "ls \<noteq> []"
  shows "loads (last ls) w = []"
  using assms by (induction ls) (auto split: if_splits)

lemma redraws_settled:
  assumes "acquired w" and "layers_plain w" and "\<forall>l. count_list ls l = count_list ls' l"
    and "ls \<noteq> []" and "decodes env w"
  shows "length (pending (world_of (redraws ls w))) = length (pending (world_of (redraws ls' w)))"
    and "thrown (settle env (length (pending w))
            (length (pending (world_of (redraws ls w))) - length (pending w))
            (world_of (redraws ls w))) = None"
    and "pending (world_of (settle env (length (pending w))
            (length (pending (world_of (redraws ls w))) - length (pending w))
            (world_of (redraws ls w)))) = pending w"
    and "surfaces (world_of (settle env (length (pending w))
            (length (pending (world_of (redraws ls w))) - length (pending w))
            (world_of (redraws ls w)))) =
         surfaces (world_of (settle env (length (pending w))
            (length (pending (world_of (redraws ls' w))) - length (pending w))
            (world_of (redraws ls' w))))"
proof -
  define a where "a = world_of (redraws ls w)"
  define b where "b = world_of (redraws ls' w)"
  define Ta where "Ta = concat (map (\<lambda>l. loads l w) ls)"
  define Tb where "Tb = concat (map (\<lambda>l. loads l w) ls')"
  define ub where "ub = string_of (bgImageUrl (state w))"
  define us where "us = string_of (squareImageUrl (state w))"
  define bi where "bi = the (decode env ub)"
  define ic where "ic = the (decode env us)"
  let ?Fb = "\<lambda>w. world_of (drawBackground_onload bi w)"
  let ?Fs = "\<lambda>w. world_of (drawSquareImage_onload ic w)"
  have sets: "set ls = set ls'"
  proof -
    have "x \<in> set ls \<longleftrightarrow> x \<in> set ls'" for x
      using assms(3) count_list_0_iff[of ls x] count_list_0_iff[of ls' x] by metis
    then show ?thesis by blast
  qed
  then have ne: "ls' \<noteq> []" using assms(4) by auto
  note A = redraws_any[OF assms(1,2), of ls, folded a_def]
    and B = redraws_any[OF assms(1,2), of ls', folded b_def]
  have pa: "pending a = pending w @ Ta" and pb: "pending b = pending w @ Tb"
    unfolding a_def b_def Ta_def Tb_def by (rule redraws_loads[OF assms(1,2)])+
  have cnt: "count_list Ta (BgOnload ub) = count_list Tb (BgOnload ub)"
    "count_list Ta (SquareOnload us) = count_list Tb (SquareOnload us)"
    "length Ta = length Tb"
    unfolding Ta_def Tb_def ub_def us_def using assms(3) by (simp_all add: loads_count)
  have dec: "\<forall>t\<in>set T. (t = BgOnload ub \<and> decode env ub = Some bi)
                 \<or> (t = SquareOnload us \<and> decode env us = Some ic)"
    if "T = Ta \<or> T = Tb" for T
  proof
    fix t assume "t \<in> set T"
    with that loads_tasks[of w ls, folded Ta_def ub_def us_def]
      loads_tasks[of w ls', folded Tb_def ub_def us_def]
    have "(t = BgOnload ub \<and> truthy (bgImageUrl (state w)))
        \<or> (t = SquareOnload us \<and> truthy (squareImageUrl (state w)))"
      by blast
    then show "(t = BgOnload ub \<and> decode env ub = Some bi)
                 \<or> (t = SquareOnload us \<and> decode env us = Some ic)"
      using assms(5) by (auto simp: decodes_def ub_def us_def bi_def ic_def)
  qed
  have aa: "acquired a" and ab: "acquired b" using A B by simp_all
  note SA = settle_loads[OF aa pa dec[of Ta], simplified]
    and SB = settle_loads[OF ab pb dec[of Tb], simplified]
  have n: "length (pending a) - length (pending w) = length Ta"
    "length (pending b) - length (pending w) = length Tb"
    by (simp_all add: pa pb)
  have lay: "bgCanvas a = bgCanvas b" "textCanvas a = textCanvas b"
    "squareCanvas a = squareCanvas b" "watermarkCanvas a = watermarkCanvas b"
    using redraws_layer_surfaces[OF assms(1,2) sets]
    by (simp_all add: layer_surfaces_def a_def b_def)
  have st: "state a = state b" and op: "out_pen a = out_pen b" "out_pen a = out_pen w"
    using A B by simp_all
  let ?a' = "world_of (settle env (length (pending w)) (length Ta) a)"
  let ?b' = "world_of (settle env (length (pending w)) (length Tb) b)"
  have bg': "bgCanvas ?a' = bgCanvas ?b'"
    using SA SB bg_loads_own[OF st lay(1), where im = bi and k = "count_list Ta (BgOnload ub)"]
    by (simp add: cnt)
  have sq': "squareCanvas ?a' = squareCanvas ?b'"
    using SA SB
      icon_loads_own[OF st lay(3), where im = ic and k = "count_list Ta (SquareOnload us)"]
    by (simp add: cnt)
  have tw': "textCanvas ?a' = textCanvas ?b'" "watermarkCanvas ?a' = watermarkCanvas ?b'"
    using SA SB lay by simp_all
  have sh': "shown ?a' = shown ?b'"
  proof (cases "Ta = []")
    case True
    then have tb: "Tb = []" using cnt(3) by simp
    have la: "loads (last ls) w = []" and lb: "loads (last ls') w = []"
      using loads_none[of w ls] loads_none[of w ls'] True tb assms(4) ne
      by (simp_all add: Ta_def Tb_def)
    have "shown a = shown b"
      using redraws_composite[OF assms(1,2,4) la] redraws_composite[OF assms(1,2) ne lb] lay
      by (simp add: a_def b_def)
    then show ?thesis using SA SB True tb by simp
  next
    case False
    then have tb: "Tb \<noteq> []" using cnt(3) by auto
    show ?thesis using SA SB False tb bg' sq' tw' op by simp
  qed
  show "length (pending (world_of (redraws ls w))) = length (pending (world_of (redraws ls' w)))"
    using cnt(3) by (simp add: pa pb a_def[symmetric] b_def[symmetric])
  show "thrown (settle env (length (pending w))
            (length (pending (world_of (redraws ls w))) - length (pending w))
            (world_of (redraws ls w))) = None"
    using SA by (simp add: a_def[symmetric] n)
  show "pending (world_of (settle env (length (pending w))
            (length (pending (world_of (redraws ls w))) - length (pending w))
            (world_of (redraws ls w)))) = pending w"
    using SA by (simp add: a_def[symmetric] n)
  show "surfaces (world_of (settle env (length (pending w))
            (length (pending (world_of (redraws ls w))) - length (pending w))
            (world_of (redraws ls w)))) =
         surfaces (world_of (settle env (length (pending w))
            (length (pending (world_of (redraws ls' w))) - length (pending w))
            (world_of (redraws ls' w))))"
    using bg' sq' tw' sh' by (simp add: a_def[symmetric] b_def[symmetric] n surfaces_def)
qed

lemma composeCanvases_no_canvas:
  "ctx w \<noteq> None \<Longrightarrow> canvas w = None \<Longrightarrow>
   composeCanvases w = Threw TypeError (w\<lparr>calls := calls w @ [Call_composeCanvases]\<rparr>)"
  by (auto simp: composeCanvases_def Let_def split: option.splits)

lemma loading_world_ok:
  "acquired loading_world" "layers_plain loading_world"
  "state loading_world = (state ready_world)\<lparr>bgImageUrl := Some ''data:image/png;base64,AAAA''\<rparr>"
  using ready_world_ok
  by (auto simp: loading_world_def acquired_def synchronous_def layers_plain_def
      split: option.splits)

text \<open>
  Claim C8. Before the output context is acquired \<open>composeCanvases\<close> changes nothing
  (but the log of calls). Once it is acquired, \<open>composeCanvases\<close> returns and leaves on
  the output surface exactly the four layer surfaces, drawn whole at the origin in the
  order background, text, icon, watermark, over the cleared surface; what it leaves is
  the same in any two worlds with the same four layer surfaces, whatever else differs,
  the render state included. (With the context held and \<open>canvas\<close> \<open>null\<close>, which
  \<open>initialize\<close> leaves when it is called again without the element, \<open>canvas.width\<close>
  throws and nothing is drawn.) These are the three cases that the module reaches, and
  in a world it reaches the layer canvases carry no transform and no clip (last section).

  For any render state, two sequences of redraws of the same layers, in any order,
  return and leave the same four layer surfaces, so the composite that
  \<open>composeCanvases\<close> makes from them is the same. The output surface itself holds that
  composite as soon as the compositor has run after the last redraw: right after the
  redraws when the last redraw of each sequence awaits no image, and, for the same
  redraws in another order, once the browser has completed the image loads that the
  redraws started, the images decoding. (A redraw that awaits an image returns without
  running the compositor; until its load completes, the output surface keeps the
  composite made before that redraw.)
\<close>

theorem composeCanvases_in_fixed_order:
  "(ctx w = None \<longrightarrow>
      composeCanvases w = Returned (w\<lparr>calls := calls w @ [Call_composeCanvases]\<rparr>))
   \<and> (ctx w \<noteq> None \<and> canvas w = None \<longrightarrow>
      composeCanvases w = Threw TypeError (w\<lparr>calls := calls w @ [Call_composeCanvases]\<rparr>))
   \<and> (acquired w \<longrightarrow>
        thrown (composeCanvases w) = None
      \<and> shown (world_of (composeCanvases w)) =
          map (Pair (out_pen w))
            (composite (bgCanvas w) (textCanvas w) (squareCanvas w) (watermarkCanvas w))
      \<and> (acquired v \<and> bgCanvas v = bgCanvas w \<and> textCanvas v = textCanvas w
           \<and> squareCanvas v = squareCanvas w \<and> watermarkCanvas v = watermarkCanvas w \<longrightarrow>
          map snd (shown (world_of (composeCanvases v))) =
          map snd (shown (world_of (composeCanvases w)))))
   \<and> (acquired w \<and> layers_plain w \<and> set ls = set ls' \<longrightarrow>
        thrown (redraws ls w) = None
      \<and> layer_surfaces (world_of (redraws ls w)) = layer_surfaces (world_of (redraws ls' w))
      \<and> shown (world_of (composeCanvases (world_of (redraws ls w)))) =
        shown (world_of (composeCanvases (world_of (redraws ls' w))))
      \<and> (ls \<noteq> [] \<and> loads (last ls) w = [] \<and> loads (last ls') w = [] \<longrightarrow>
          surfaces (world_of (redraws ls w)) = surfaces (world_of (redraws ls' w))))
   \<and> (acquired w \<and> layers_plain w \<and> (\<forall>l. count_list ls l = count_list ls' l)
        \<and> decodes env w \<longrightarrow>
        thrown (settled env w (world_of (redraws ls w))) = None
      \<and> pending (world_of (settled env w (world_of (redraws ls w)))) = pending w
      \<and> surfaces (world_of (settled env w (world_of (redraws ls w)))) =
        surfaces (world_of (settled env w (world_of (redraws ls' w)))))"
proof -
  have a: "map snd (shown (world_of (composeCanvases u))) =
      composite (bgCanvas u) (textCanvas u) (squareCanvas u) (watermarkCanvas u)"
    if "acquired u" for u
    by (simp add: composeCanvases_shown(2)[OF that] comp_def)
  have 1: "ctx w = None \<longrightarrow>
      composeCanvases w = Returned (w\<lparr>calls := calls w @ [Call_composeCanvases]\<rparr>)"
    by (simp add: composeCanvases_not_acquired)
  have 2: "ctx w \<noteq> None \<and> canvas w = None \<longrightarrow>
      composeCanvases w = Threw TypeError (w\<lparr>calls := calls w @ [Call_composeCanvases]\<rparr>)"
    using composeCanvases_no_canvas[of w] by blast
  have 3: "acquired w \<longrightarrow>
        thrown (composeCanvases w) = None
      \<and> shown (world_of (composeCanvases w)) =
          map (Pair (out_pen w))
            (composite (bgCanvas w) (textCanvas w) (squareCanvas w) (watermarkCanvas w))
      \<and> (acquired v \<and> bgCanvas v = bgCanvas w \<and> textCanvas v = textCanvas w
           \<and> squareCanvas v = squareCanvas w \<and> watermarkCanvas v = watermarkCanvas w \<longrightarrow>
          map snd (shown (world_of (composeCanvases v))) =
          map snd (shown (world_of (composeCanvases w))))"
    using a[of w] a[of v] composeCanvases_shown(1,2)[of w] by simp
  have 4: "acquired w \<and> layers_plain w \<and> set ls = set ls' \<longrightarrow>
        thrown (redraws ls w) = None
      \<and> layer_surfaces (world_of (redraws ls w)) = layer_surfaces (world_of (redraws ls' w))
      \<and> shown (world_of (composeCanvases (world_of (redraws ls w)))) =
        shown (world_of (composeCanvases (world_of (redraws ls' w))))
      \<and> (ls \<noteq> [] \<and> loads (last ls) w = [] \<and> loads (last ls') w = [] \<longrightarrow>
          surfaces (world_of (redraws ls w)) = surfaces (world_of (redraws ls' w)))"
  proof (intro impI, elim conjE)
    assume h: "acquired w" "layers_plain w" "set ls = set ls'"
    note L = redraws_layer_surfaces[OF h]
    have out: "surfaces (world_of (redraws ls w)) = surfaces (world_of (redraws ls' w))"
      if "ls \<noteq> []" "loads (last ls) w = []" "loads (last ls') w = []"
    proof -
      have ne: "ls' \<noteq> []" using h(3) that(1) by auto
      show ?thesis
        using redraws_composite[OF h(1,2) that(1,2)] redraws_composite[OF h(1,2) ne that(3)] L
        by (simp add: surfaces_def layer_surfaces_def)
    qed
    show "thrown (redraws ls w) = None
      \<and> layer_surfaces (world_of (redraws ls w)) = layer_surfaces (world_of (redraws ls' w))
      \<and> shown (world_of (composeCanvases (world_of (redraws ls w)))) =
        shown (world_of (composeCanvases (world_of (redraws ls' w))))
      \<and> (ls \<noteq> [] \<and> loads (last ls) w = [] \<and> loads (last ls') w = [] \<longrightarrow>
          surfaces (world_of (redraws ls w)) = surfaces (world_of (redraws ls' w)))"
      using redraws_any[OF h(1,2), of ls] L redraws_recomposited[OF h] out by blast
  qed
  have 5: "acquired w \<and> layers_plain w \<and> (\<forall>l. count_list ls l = count_list ls' l)
        \<and> decodes env w \<longrightarrow>
        thrown (settled env w (world_of (redraws ls w))) = None
      \<and> pending (world_of (settled env w (world_of (redraws ls w)))) = pending w
      \<and> surfaces (world_of (settled env w (world_of (redraws ls w)))) =
        surfaces (world_of (settled env w (world_of (redraws ls' w))))"
  proof (cases "ls = []")
    case True
    show ?thesis
    proof (intro impI, elim conjE)
      assume c: "\<forall>l. count_list ls l = count_list ls' l"
      have "x \<notin> set ls'" for x
        using c True count_list_0_iff[of ls' x] by simp
      then have "ls' = []" by (cases ls') auto
      with True show "thrown (settled env w (world_of (redraws ls w))) = None
        \<and> pending (world_of (settled env w (world_of (redraws ls w)))) = pending w
        \<and> surfaces (world_of (settled env w (world_of (redraws ls w)))) =
          surfaces (world_of (settled env w (world_of (redraws ls' w))))"
        by (simp add: settled_def)
    qed
  next
    case False
    then show ?thesis
      unfolding settled_def using redraws_settled[of w ls ls' env] by blast
  qed
  show ?thesis using 1 2 3 4 5 by blast
qed

theorem composeCanvases_in_fixed_order_witness:
  "ctx page_world = None
   \<and> composeCanvases page_world = Returned (page_world\<lparr>calls := [Call_composeCanvases]\<rparr>)
   \<and> ctx (ready_world\<lparr>canvas := None\<rparr>) \<noteq> None
   \<and> thrown (composeCanvases (ready_world\<lparr>canvas := None\<rparr>)) = Some TypeError
   \<and> acquired ready_world
   \<and> thrown (composeCanvases ready_world) = None
   \<and> map snd (shown (world_of (composeCanvases ready_world))) =
       [layer_paint (bgCanvas ready_world), layer_paint (textCanvas ready_world),
        layer_paint (squareCanvas ready_world), layer_paint (watermarkCanvas ready_world)]
   \<and> acquired loading_world
   \<and> map snd (shown (world_of (composeCanvases loading_world))) =
     map snd (shown (world_of (composeCanvases ready_world)))
   \<and> layers_plain loading_world \<and> truthy (bgImageUrl (state loading_world))
   \<and> layer_surfaces (world_of (redraws [Background, Text] loading_world)) =
     layer_surfaces (world_of (redraws [Text, Background] loading_world))
   \<and> shown (world_of (composeCanvases (world_of (redraws [Background, Text] loading_world)))) =
     shown (world_of (composeCanvases (world_of (redraws [Text, Background] loading_world))))
   \<and> surfaces (world_of (redraws [Background, Text, Watermark] loading_world)) =
     surfaces (world_of (redraws [Watermark, Background, Text] loading_world))
   \<and> decodes photo_browser loading_world
   \<and> thrown (settled photo_browser loading_world
        (world_of (redraws [Background, Text] loading_world))) = None
   \<and> surfaces (world_of (settled photo_browser loading_world
        (world_of (redraws [Background, Text] loading_world)))) =
     surfaces (world_of (settled photo_browser loading_world
        (world_of (redraws [Text, Background] loading_world))))"
proof -
  have c: "ctx page_world = None" "calls page_world = []"
    by (simp_all add: page_world_def initial_world_def)
  note T = composeCanvases_in_fixed_order
  have r: "acquired ready_world" by (rule ready_world_ok(2))
  have n: "ctx (ready_world\<lparr>canvas := None\<rparr>) \<noteq> None" "canvas (ready_world\<lparr>canvas := None\<rparr>) = None"
    using r by (auto simp: acquired_def split: option.splits)
  note lw = loading_world_ok
  have t: "truthy (bgImageUrl (state loading_world))" by (simp add: lw(3) truthy_def)
  have lay: "bgCanvas loading_world = bgCanvas ready_world"
    "textCanvas loading_world = textCanvas ready_world"
    "squareCanvas loading_world = squareCanvas ready_world"
    "watermarkCanvas loading_world = watermarkCanvas ready_world"
    by (simp_all add: loading_world_def)
  have d: "decodes photo_browser loading_world"
    by (simp add: decodes_def photo_browser_def)
  have 1: "composeCanvases page_world = Returned (page_world\<lparr>calls := [Call_composeCanvases]\<rparr>)"
    using T[of page_world] c by simp
  have 2: "thrown (composeCanvases (ready_world\<lparr>canvas := None\<rparr>)) = Some TypeError"
    using T[of "ready_world\<lparr>canvas := None\<rparr>"] n by simp
  have 3: "thrown (composeCanvases ready_world) = None"
    "shown (world_of (composeCanvases ready_world)) =
       map (Pair (out_pen ready_world))
         (composite (bgCanvas ready_world) (textCanvas ready_world) (squareCanvas ready_world)
            (watermarkCanvas ready_world))"
    "map snd (shown (world_of (composeCanvases loading_world))) =
     map snd (shown (world_of (composeCanvases ready_world)))"
    using T[of ready_world loading_world] r lw(1) lay by simp_all
  have 4: "layer_surfaces (world_of (redraws [Background, Text] loading_world)) =
     layer_surfaces (world_of (redraws [Text, Background] loading_world))"
    "shown (world_of (composeCanvases (world_of (redraws [Background, Text] loading_world)))) =
     shown (world_of (composeCanvases (world_of (redraws [Text, Background] loading_world))))"
    using T[of loading_world _ "[Background, Text]" "[Text, Background]"] lw(1,2)
    by (simp_all add: insert_commute)
  have 5: "surfaces (world_of (redraws [Background, Text, Watermark] loading_world)) =
     surfaces (world_of (redraws [Watermark, Background, Text] loading_world))"
    using T[of loading_world _ "[Background, Text, Watermark]" "[Watermark, Background, Text]"]
      lw(1,2)
    by (simp add: insert_commute)
  have 6: "thrown (settled photo_browser loading_world
        (world_of (redraws [Background, Text] loading_world))) = None"
    "surfaces (world_of (settled photo_browser loading_world
        (world_of (redraws [Background, Text] loading_world)))) =
     surfaces (world_of (settled photo_browser loading_world
        (world_of (redraws [Text, Background] loading_world))))"
    using T[of loading_world _ "[Background, Text]" "[Text, Background]" photo_browser] lw(1,2) d
    by simp_all
  show ?thesis
    using c(1) 1 n(1) 2 r 3 lw(1,2) t 4 5 d 6
    by (simp add: composite_def comp_def)
qed

text \<open>
  The condition on the last redraw is needed. With a background image set and its load
  still pending, the output surface holds the composite of the last redraw that ran the
  compositor: after \<open>drawBackground(); drawText()\<close> that of the cleared background,
  after \<open>drawText(); drawBackground()\<close> that of the background as it was before.
\<close>

lemma output_while_loading:
  "shown (world_of (redraws [Background, Text] loading_world)) \<noteq>
   shown (world_of (redraws [Text, Background] loading_world))"
proof -
  note lw = loading_world_ok
  have t: "truthy (bgImageUrl (state loading_world))" by (simp add: lw(3) truthy_def)
  have pb: "plain (bgCanvas loading_world)" using lw(2) by (simp add: layers_plain_def)
  let ?w = loading_world
  define w1 where "w1 = world_of (drawBackground ?w)"
  have w1: "drawBackground ?w = Returned w1" "acquired w1" "bgCanvas w1 = (bgCanvas ?w)\<lparr>content := []\<rparr>"
    using redraw_acquired[OF lw(1), of Background]
    by (simp_all add: w1_def drawBackground_image[OF pb t])
  have s1: "shown (world_of (drawText w1)) =
      map (Pair (out_pen w1))
        (composite (bgCanvas w1) (textCanvas (world_of (drawText w1))) (squareCanvas w1)
           (watermarkCanvas w1))"
    using redraw_composite[OF w1(2), of Text] redraw_other[of Background Text w1]
      redraw_other[of Icon Text w1] redraw_other[of Watermark Text w1]
    by simp
  have e1: "redraws [Background, Text] ?w = drawText w1"
    by (cases "drawText w1") (simp_all add: w1(1) and_then_def)
  define w2 where "w2 = world_of (drawText ?w)"
  have w2: "drawText ?w = Returned w2" "acquired w2" "bgCanvas w2 = bgCanvas ?w"
    "state w2 = state ?w"
    using redraw_acquired[OF lw(1), of Text] returned_if_not_thrown[of "drawText ?w"]
      redraw_other[of Background Text ?w]
    by (simp_all add: w2_def)
  have s2: "shown w2 =
      map (Pair (out_pen ?w))
        (composite (bgCanvas ?w) (textCanvas w2) (squareCanvas w2) (watermarkCanvas w2))"
    using redraw_composite[OF lw(1), of Text] redraw_other[of Background Text ?w]
    by (simp add: w2_def)
  have e2: "redraws [Text, Background] ?w = drawBackground w2"
    by (cases "drawBackground w2") (simp_all add: w2(1) and_then_def)
  have t2: "truthy (bgImageUrl (state w2))" using t w2(4) by simp
  have s3: "shown (world_of (drawBackground w2)) = shown w2"
    using t2 by (simp add: drawBackground_def Let_def shown_def split: option.splits)
  have ne: "content (bgCanvas ?w) \<noteq> []"
  proof -
    have "bgCanvas ?w = bgCanvas ready_world" by (simp add: loading_world_def)
    moreover have "content (bgCanvas ready_world) \<noteq> []"
    proof -
      let ?p = "page_world\<lparr>canvas := Some 0, ctx := Some 0\<rparr>"
      have s: "synchronous ?p"
        by (simp add: synchronous_def page_world_def initial_world_def initial_state_def truthy_def
            plain_def createCanvas_def default_pen_def)
      have a: "acquired ?p"
        by (simp add: acquired_def page_world_def initial_world_def plain_def createCanvas_def
            default_pen_def)
      have "bgCanvas ready_world = bgCanvas (world_of (drawBackground ?p))"
      proof -
        have "\<forall>l. layer_canvas l (world_of (redraws [Background, Text, Watermark, Icon] ?p)) =
            (if l \<in> set [Background, Text, Watermark, Icon]
             then layer_canvas l (world_of (redraw l ?p)) else layer_canvas l ?p)"
          using redraws_layers[OF s a, of "[Background, Text, Watermark, Icon]"] by blast
        from this[THEN spec, of Background] show ?thesis
          by (simp add: ready_world_def initialize_page_world del: redraws.simps)
      qed
      moreover have "content (bgCanvas (world_of (drawBackground ?p))) \<noteq> []"
        using s by (simp add: drawBackground_color(1) synchronous_def)
      ultimately show ?thesis by simp
    qed
    ultimately show ?thesis by simp
  qed
  show ?thesis
    unfolding e1 e2 s3 s1 s2
    using ne by (simp add: composite_def layer_paint_def w1(3))
qed

section \<open>Export without an output surface\<close>

text \<open>
  Claim C3, as stated, fails for \<open>saveWebp\<close>: in a page without the preview canvas,
  where the module's \<open>canvas\<close> is \<open>null\<close>, it returns normally and leaves the world as
  it was: no error, no callback requested, no download.
\<close>

theorem saveWebp_silent_counterexample:
  "canvas bare_world = None \<and> document_canvasPreview bare_world = None
   \<and> saveWebp bare_world = Returned bare_world
   \<and> thrown (saveWebp bare_world) = None"
  by (simp add: saveWebp_def bare_world_def initial_world_def)

text \<open>
  Claim C3, amended. \<open>coverAPI.export\<close>, called when the preview canvas is absent,
  rejects with the error \<open>Canvas not found\<close>, whatever the format and the quality, and
  so never resolves with a result; \<open>saveWebp\<close>, called when the module's canvas is
  absent, returns with no effect.
\<close>

theorem export_without_canvas:
  "(document_canvasPreview w = None \<longrightarrow>
      coverAPI_export env format' quality' w = Rejected (Error ''Canvas not found'')
      \<and> (\<forall>info. coverAPI_export env format' quality' w \<noteq> Resolved info))
   \<and> (canvas w = None \<longrightarrow> saveWebp w = Returned w)"
  by (simp add: coverAPI_export_def saveWebp_def Let_def)

theorem export_without_canvas_witness:
  "document_canvasPreview bare_world = None \<and> canvas bare_world = None
   \<and> coverAPI_export null_browser None None bare_world = Rejected (Error ''Canvas not found'')
   \<and> saveWebp bare_world = Returned bare_world"
proof -
  have h: "document_canvasPreview bare_world = None" "canvas bare_world = None"
    by (simp_all add: bare_world_def initial_world_def)
  show ?thesis
    using export_without_canvas[of bare_world null_browser None None] h by simp
qed

section \<open>The batch flush\<close>

lemma acquired_cong:
  "ctx u = ctx w \<Longrightarrow> canvas u = canvas w \<Longrightarrow> elements u = elements w \<Longrightarrow>
   acquired u = acquired w"
  by (auto simp: acquired_def split: option.splits)

lemma drawText_calls:
  "calls (world_of (drawText w)) = calls w @ [Call_drawText, Call_composeCanvases]"
  by (subst drawText_eq) simp

lemma drawText_acquired:
  assumes "acquired w"
  shows "thrown (drawText w) = None" and "acquired (world_of (drawText w))"
proof -
  let ?u = "w\<lparr>calls := calls w @ [Call_drawText],
               textCanvas := textCanvas (world_of (drawText w))\<rparr>"
  have u: "acquired ?u" using assms acquired_cong[of ?u w] by simp
  show "thrown (drawText w) = None" and "acquired (world_of (drawText w))"
    using composeCanvases_shown(1,3)[OF u] drawText_eq[of w] by simp_all
qed

lemma composeCanvases_queue [simp]:
  "updateQueue (world_of (composeCanvases w)) = updateQueue w"
  "updateScheduled (world_of (composeCanvases w)) = updateScheduled w"
  by (simp_all add: composeCanvases_def Let_def split: option.splits)

lemma redraw_queue [simp]:
  "updateQueue (world_of (redraw a w)) = updateQueue w"
  "updateScheduled (world_of (redraw a w)) = updateScheduled w"
  by (cases a; simp add: draw_defs Let_def)+

lemma redraw_pending:
  "synchronous w \<Longrightarrow> pending (world_of (redraw a w)) = pending w"
  by (cases a; simp add: draw_defs Let_def synchronous_def)

lemma redraws_queue:
  assumes "synchronous w" and "acquired w"
  shows "updateQueue (world_of (redraws ls w)) = updateQueue w
       \<and> updateScheduled (world_of (redraws ls w)) = updateScheduled w
       \<and> pending (world_of (redraws ls w)) = pending w"
  using assms
proof (induction ls arbitrary: w)
  case Nil
  then show ?case by simp
next
  case (Cons a ls)
  define w1 where "w1 = world_of (redraw a w)"
  have r: "redraw a w = Returned w1"
    using returned_if_not_thrown[OF redraw_shown(1)[OF Cons.prems, of a]] by (simp add: w1_def)
  have s1: "synchronous w1" unfolding w1_def by (rule redraw_synchronous[OF Cons.prems(1)])
  have a1: "acquired w1" unfolding w1_def by (rule redraw_shown(2)[OF Cons.prems])
  have q: "updateQueue w1 = updateQueue w" "updateScheduled w1 = updateScheduled w"
    "pending w1 = pending w"
    using redraw_pending[OF Cons.prems(1), of a] by (simp_all add: w1_def)
  show ?case using Cons.IH[OF s1 a1] by (simp add: r and_then_def q)
qed

lemma ready_world_queue:
  "updateQueue ready_world = []" "updateScheduled ready_world = False" "pending ready_world = []"
proof -
  let ?w = "page_world\<lparr>canvas := Some 0, ctx := Some 0\<rparr>"
  have s: "synchronous ?w"
    by (simp add: synchronous_def page_world_def initial_world_def initial_state_def truthy_def
        plain_def createCanvas_def default_pen_def)
  have a: "acquired ?w"
    by (simp add: acquired_def page_world_def initial_world_def plain_def createCanvas_def
        default_pen_def)
  show "updateQueue ready_world = []" "updateScheduled ready_world = False"
    "pending ready_world = []"
    using redraws_queue[OF s a, of "[Background, Text, Watermark, Icon]"]
    by (simp_all add: ready_world_def initialize_page_world)
       (simp_all add: page_world_def initial_world_def)
qed

lemma text_kind_updater:
  assumes "k \<in> set text_kinds"
  shows "\<exists>st. updateByType k e w = drawText (w\<lparr>state := st\<rparr>)"
proof -
  from assms consider "k = ''text''" | "k = ''textSize''" | "k = ''textColor''" | "k = ''text3D''"
    by (auto simp: text_kinds_def)
  then show ?thesis
  proof cases
    case 1
    then show ?thesis
      by (simp add: updateByType_def updateFunctions_def updateText_def Let_def) blast
  next
    case 2
    then show ?thesis
      by (simp add: updateByType_def updateFunctions_def updateTextSize_def) blast
  next
    case 3
    then show ?thesis
      by (simp add: updateByType_def updateFunctions_def updateTextColor_def) blast
  next
    case 4
    then show ?thesis
      by (simp add: updateByType_def updateFunctions_def updateText3D_def) blast
  qed
qed

lemma text_kind_case:
  assumes "k \<in> set text_kinds"
  shows "batch_case k e nr w = (nr\<lparr>nr_text := True\<rparr>, updateByType k e w)"
  using assms by (auto simp: text_kinds_def batch_case_def)

lemma batch_loop_text_kind:
  assumes "acquired w" and "k \<in> set text_kinds"
  shows "\<exists>w'. batch_loop (map (Pair k) es) nr w =
             ((if es = [] then nr else nr\<lparr>nr_text := True\<rparr>), Returned w')
           \<and> acquired w'
           \<and> calls w' = calls w @ concat (replicate (length es) [Call_drawText, Call_composeCanvases])"
  using assms(1)
proof (induction es arbitrary: w nr)
  case Nil
  then show ?case by simp
next
  case (Cons e es)
  from text_kind_updater[OF assms(2), of e w] obtain st where
    st: "updateByType k e w = drawText (w\<lparr>state := st\<rparr>)" by blast
  let ?u = "w\<lparr>state := st\<rparr>"
  have au: "acquired ?u" using Cons.prems acquired_cong[of ?u w] by simp
  define w1 where "w1 = world_of (drawText ?u)"
  have r: "drawText ?u = Returned w1"
    using returned_if_not_thrown[OF drawText_acquired(1)[OF au]] by (simp add: w1_def)
  have a1: "acquired w1" unfolding w1_def by (rule drawText_acquired(2)[OF au])
  have c1: "calls w1 = calls w @ [Call_drawText, Call_composeCanvases]"
    unfolding w1_def by (simp add: drawText_calls)
  have b: "batch_case k e nr w = (nr\<lparr>nr_text := True\<rparr>, Returned w1)"
    by (simp add: text_kind_case[OF assms(2)] st r)
  from Cons.IH[OF a1, of "nr\<lparr>nr_text := True\<rparr>"] obtain w' where
    w': "batch_loop (map (Pair k) es) (nr\<lparr>nr_text := True\<rparr>) w1 =
           ((if es = [] then nr\<lparr>nr_text := True\<rparr> else nr\<lparr>nr_text := True\<rparr>), Returned w')"
        "acquired w'"
        "calls w' = calls w1 @ concat (replicate (length es) [Call_drawText, Call_composeCanvases])"
    by auto
  show ?case
    by (rule exI[of _ w']) (use w' in \<open>simp add: b c1\<close>)
qed

lemma flush_text_kind:
  assumes "acquired w" and "k \<in> set text_kinds" and "updateQueue w = map (Pair k) es"
    and "es \<noteq> []"
  shows "thrown (processBatchUpdates w) = None"
    and "calls (world_of (processBatchUpdates w)) =
           calls w @ concat (replicate (length es) [Call_drawText, Call_composeCanvases])
             @ [Call_drawText, Call_composeCanvases, Call_composeCanvases]"
proof -
  let ?w0 = "w\<lparr>updateQueue := [], updateScheduled := False\<rparr>"
  let ?no = "\<lparr>nr_background = False, nr_text = False, nr_watermark = False, nr_square = False\<rparr>"
  have a0: "acquired ?w0" using assms(1) acquired_cong[of ?w0 w] by simp
  from batch_loop_text_kind[OF a0 assms(2), of es ?no] assms(4) obtain w1 where
    w1: "batch_loop (map (Pair k) es) ?no ?w0 = (?no\<lparr>nr_text := True\<rparr>, Returned w1)"
        "acquired w1"
        "calls w1 = calls w @ concat (replicate (length es) [Call_drawText, Call_composeCanvases])"
    by auto
  define w2 where "w2 = world_of (drawText w1)"
  have r2: "drawText w1 = Returned w2"
    using returned_if_not_thrown[OF drawText_acquired(1)[OF w1(2)]] by (simp add: w2_def)
  have a2: "acquired w2" unfolding w2_def by (rule drawText_acquired(2)[OF w1(2)])
  have c2: "calls w2 = calls w1 @ [Call_drawText, Call_composeCanvases]"
    unfolding w2_def by (simp add: drawText_calls)
  have p: "processBatchUpdates w = composeCanvases w2"
    by (simp add: processBatchUpdates_def Let_def assms(3) w1(1) and_then_def r2)
  show "thrown (processBatchUpdates w) = None"
    unfolding p by (rule composeCanvases_shown(1)[OF a2])
  show "calls (world_of (processBatchUpdates w)) =
           calls w @ concat (replicate (length es) [Call_drawText, Call_composeCanvases])
             @ [Call_drawText, Call_composeCanvases, Call_composeCanvases]"
    unfolding p by (simp add: c2 w1(3))
qed

lemma count_draw_compose:
  "count_list (concat (replicate n [Call_drawText, Call_composeCanvases])) Call_drawText = n"
  "count_list (concat (replicate n [Call_drawText, Call_composeCanvases])) Call_composeCanvases = n"
  by (induction n) simp_all

text \<open>
  Claim C1 on the code. With the output context acquired and \<open>N \<ge> 1\<close> updates of one
  kind among \<open>text\<close>, \<open>textSize\<close>, \<open>textColor\<close> and \<open>text3D\<close> in the queue, the flush
  returns after \<open>N + 1\<close> redraws of the text layer and \<open>N + 2\<close> compositor passes: the
  updater of each update redraws and composites by itself, the flush then redraws the
  flagged layer once more, and the compositor pass that ends the flush follows the one
  \<open>drawText\<close> has just made.
\<close>

theorem flush_same_kind_not_coalesced:
  assumes "acquired w" and "k \<in> set text_kinds" and "updateQueue w = map (Pair k) es"
    and "es \<noteq> []"
  shows "thrown (processBatchUpdates w) = None
       \<and> new_calls w (processBatchUpdates w) =
           concat (replicate (length es) [Call_drawText, Call_composeCanvases])
             @ [Call_drawText, Call_composeCanvases, Call_composeCanvases]
       \<and> count_list (new_calls w (processBatchUpdates w)) Call_drawText = length es + 1
       \<and> count_list (new_calls w (processBatchUpdates w)) Call_composeCanvases = length es + 2"
proof -
  note F = flush_text_kind[OF assms]
  have n: "new_calls w (processBatchUpdates w) =
           concat (replicate (length es) [Call_drawText, Call_composeCanvases])
             @ [Call_drawText, Call_composeCanvases, Call_composeCanvases]"
    unfolding new_calls_def F(2) by simp
  show ?thesis unfolding n using F(1) by (simp add: count_draw_compose)
qed

text \<open>
  Two \<open>textColor\<close> updates scheduled on the initialized page arm one frame callback;
  when the browser runs it, the text layer is redrawn three times and the compositor
  runs four times.
\<close>

theorem flush_two_textColor_updates:
  "updateQueue two_color_updates = [(''textColor'', red_event), (''textColor'', blue_event)]
   \<and> pending two_color_updates = [Frame]
   \<and> acquired (two_color_updates\<lparr>pending := []\<rparr>)
   \<and> ''textColor'' \<in> set text_kinds
   \<and> thrown (run_pending null_browser 0 two_color_updates) = None
   \<and> new_calls two_color_updates (run_pending null_browser 0 two_color_updates) =
       [Call_drawText, Call_composeCanvases, Call_drawText, Call_composeCanvases,
        Call_drawText, Call_composeCanvases, Call_composeCanvases]
   \<and> count_list (new_calls two_color_updates (run_pending null_browser 0 two_color_updates))
        Call_drawText = 3
   \<and> count_list (new_calls two_color_updates (run_pending null_browser 0 two_color_updates))
        Call_composeCanvases = 4"
proof -
  have q: "updateQueue two_color_updates = map (Pair ''textColor'') [red_event, blue_event]"
    and p: "pending two_color_updates = [Frame]"
    by (simp_all add: two_color_updates_def scheduleUpdate_def Let_def ready_world_queue)
  let ?w = "two_color_updates\<lparr>pending := []\<rparr>"
  have "acquired two_color_updates"
    using acquired_cong[of two_color_updates ready_world] ready_world_ok(2)
    by (simp add: two_color_updates_def scheduleUpdate_def Let_def)
  then have a: "acquired ?w" using acquired_cong[of ?w two_color_updates] by simp
  have k: "''textColor'' \<in> set text_kinds" by (simp add: text_kinds_def)
  have r: "run_pending null_browser 0 two_color_updates = processBatchUpdates ?w"
    by (simp add: run_pending_def p)
  have q': "updateQueue ?w = map (Pair ''textColor'') [red_event, blue_event]"
    using q by simp
  have c: "calls ?w = calls two_color_updates" by simp
  have n: "new_calls two_color_updates r' = new_calls ?w r'" for r'
    by (simp add: new_calls_def)
  note F = flush_same_kind_not_coalesced[OF a k q']
  show ?thesis
    using q p a k F by (simp add: r n numeral_2_eq_2)
qed

section \<open>Scheduling\<close>

lemma scheduleUpdate_scheduled:
  "updateScheduled (scheduleUpdate k e w)"
  by (simp add: scheduleUpdate_def Let_def)

lemma schedule_all_scheduled:
  assumes "updateScheduled w"
  shows "schedule_all us w = w\<lparr>updateQueue := updateQueue w @ us\<rparr>"
  using assms
proof (induction us arbitrary: w)
  case Nil
  then show ?case by (simp add: schedule_all_def)
next
  case (Cons u us)
  obtain k e where u: "u = (k, e)" by (cases u)
  have s: "scheduleUpdate k e w = w\<lparr>updateQueue := updateQueue w @ [(k, e)]\<rparr>"
    using Cons.prems by (simp add: scheduleUpdate_def Let_def)
  have "schedule_all (u # us) w = schedule_all us (scheduleUpdate k e w)"
    by (simp add: schedule_all_def u)
  also have "\<dots> = (scheduleUpdate k e w)\<lparr>updateQueue := updateQueue (scheduleUpdate k e w) @ us\<rparr>"
    by (rule Cons.IH) (rule scheduleUpdate_scheduled)
  finally show ?case by (simp add: s u)
qed

text \<open>
  Any number of updates scheduled while no flush is pending arm exactly one frame
  callback and are queued in the order of their scheduling.
\<close>

theorem schedule_all_one_frame:
  assumes "\<not> updateScheduled w" and "us \<noteq> []"
  shows "schedule_all us w =
           w\<lparr>updateQueue := updateQueue w @ us, updateScheduled := True,
             pending := pending w @ [Frame]\<rparr>"
proof -
  obtain k e us' where u: "us = (k, e) # us'" using assms(2) by (cases us) auto
  let ?w1 = "scheduleUpdate k e w"
  have s: "?w1 = w\<lparr>updateQueue := updateQueue w @ [(k, e)], updateScheduled := True,
                   pending := pending w @ [Frame]\<rparr>"
    using assms(1) by (simp add: scheduleUpdate_def Let_def)
  have "schedule_all us w = schedule_all us' ?w1" by (simp add: schedule_all_def u)
  also have "\<dots> = ?w1\<lparr>updateQueue := updateQueue ?w1 @ us'\<rparr>"
    by (rule schedule_all_scheduled) (rule scheduleUpdate_scheduled)
  finally show ?thesis by (simp add: s u)
qed

theorem schedule_all_one_frame_witness:
  "\<not> updateScheduled ready_world
   \<and> schedule_all [(''textColor'', red_event), (''textColor'', blue_event)] ready_world =
       two_color_updates
   \<and> pending two_color_updates = [Frame]
   \<and> updateScheduled two_color_updates"
proof -
  have h: "\<not> updateScheduled ready_world" by (simp add: ready_world_queue)
  have e: "schedule_all [(''textColor'', red_event), (''textColor'', blue_event)] ready_world =
       two_color_updates"
    by (simp add: schedule_all_def two_color_updates_def)
  have t: "two_color_updates =
      ready_world\<lparr>updateQueue := updateQueue ready_world @
                      [(''textColor'', red_event), (''textColor'', blue_event)],
                   updateScheduled := True, pending := pending ready_world @ [Frame]\<rparr>"
    using schedule_all_one_frame[OF h, of "[(''textColor'', red_event), (''textColor'', blue_event)]"]
    by (simp add: e)
  have "pending two_color_updates = [Frame]" "updateScheduled two_color_updates"
    by (subst t, simp add: ready_world_queue)+
  then show ?thesis using h e by simp
qed

section \<open>The worlds that the module reaches\<close>

text \<open>
  The conditions that the properties above put on the canvases hold in every world that
  the module reaches from its initial world, in a document whose canvas elements carry no
  transform and no clip: no function of the module leaves a transform or a clip on a
  layer canvas or on the output canvas, and \<open>ctx\<close> is only ever set to the context of
  \<open>canvas\<close>. (The layer contexts are exported too; that other modules do not draw on
  them is assumed.)
\<close>

lemma foldl_fillText_pen:
  "pen (foldl (\<lambda>cv (index, line). fillText line (width cv / 2) (f index) cv) cv (enumerate n ls))
     = pen cv"
  by (simp add: foldl_fillText)

lemma plain_ops [simp]:
  "plain (put p cv) = plain cv"
  "plain (clearRect x y w h cv) = plain cv"
  "plain (fillRect x y w h cv) = plain cv"
  "plain (fillText s x y cv) = plain cv"
  "plain (drawImage im x y w h cv) = plain cv"
  "plain (drawCanvas src x y w h cv) = plain cv"
  by (simp_all add: plain_def put_def clearRect_def fillRect_def fillText_def drawImage_def
      drawCanvas_def)

lemma composeCanvases_layers_plain [simp]:
  "layers_plain (world_of (composeCanvases w)) = layers_plain w"
  by (simp add: layers_plain_def)

lemma drawBackground_layers_plain [simp]:
  "layers_plain (world_of (drawBackground w)) = layers_plain w"
  by (simp add: drawBackground_def Let_def layers_plain_def)
     (simp add: plain_def set_pen_def fillRect_def put_def clearRect_def)

lemma drawSquareImage_layers_plain [simp]:
  "layers_plain (world_of (drawSquareImage w)) = layers_plain w"
  by (simp add: drawSquareImage_def Let_def layers_plain_def)

lemma drawWatermark_layers_plain [simp]:
  "layers_plain (world_of (drawWatermark w)) = layers_plain w"
  by (simp add: drawWatermark_def Let_def layers_plain_def)
     (simp add: plain_def set_pen_def fillText_def put_def clearRect_def)

lemma drawText_layers_plain [simp]:
  "layers_plain (world_of (drawText w)) = layers_plain w"
proof -
  have "plain (textCanvas (world_of (drawText w))) = plain (textCanvas w)"
    by (simp add: drawText_def Let_def)
       (simp add: plain_def foldl_fillText_pen set_pen_def clearRect_def put_def)
  moreover have "bgCanvas (world_of (drawText w)) = bgCanvas w"
    "squareCanvas (world_of (drawText w)) = squareCanvas w"
    "watermarkCanvas (world_of (drawText w)) = watermarkCanvas w"
    using redraw_other[of Background Text w] redraw_other[of Icon Text w]
      redraw_other[of Watermark Text w] by simp_all
  ultimately show ?thesis by (simp add: layers_plain_def)
qed

lemma drawBackground_onload_layers_plain [simp]:
  "layers_plain (world_of (drawBackground_onload im w)) = layers_plain w"
  by (simp add: drawBackground_onload_def Let_def layers_plain_def split: prod.splits)
     (simp add: plain_def set_pen_def)

lemma drawSquareImage_onload_layers_plain [simp]:
  "layers_plain (world_of (drawSquareImage_onload im w)) = layers_plain w"
  by (simp add: drawSquareImage_onload_def Let_def layers_plain_def split: prod.splits)
     (simp add: plain_def canvas_ops)

lemma layers_plain_cong:
  "bgCanvas u = bgCanvas w \<Longrightarrow> textCanvas u = textCanvas w \<Longrightarrow>
   squareCanvas u = squareCanvas w \<Longrightarrow> watermarkCanvas u = watermarkCanvas w \<Longrightarrow>
   layers_plain u = layers_plain w"
  by (simp add: layers_plain_def)

lemma layers_plain_updates [simp]:
  "layers_plain (w\<lparr>state := st\<rparr>) = layers_plain w"
  "layers_plain (w\<lparr>imageCache := c\<rparr>) = layers_plain w"
  "layers_plain (w\<lparr>pending := ps\<rparr>) = layers_plain w"
  "layers_plain (w\<lparr>updateQueue := q\<rparr>) = layers_plain w"
  "layers_plain (w\<lparr>updateScheduled := b\<rparr>) = layers_plain w"
  "layers_plain (w\<lparr>canvas := cv\<rparr>) = layers_plain w"
  "layers_plain (w\<lparr>ctx := cx\<rparr>) = layers_plain w"
  "layers_plain (w\<lparr>console := lg\<rparr>) = layers_plain w"
  "layers_plain (w\<lparr>downloads := ds\<rparr>) = layers_plain w"
  by (simp_all add: layers_plain_def)

lemma and_then_layers_plain:
  assumes "\<And>u. layers_plain (world_of (f u)) = layers_plain u"
  shows "layers_plain (world_of (and_then r f)) = layers_plain (world_of r)"
  using assms by (cases r) (simp_all add: and_then_def)

lemma run_callback_layers_plain [simp]:
  "layers_plain (world_of (run_callback cb url w)) = layers_plain w"
  by (cases cb) (simp_all add: run_callback_def)

lemma loadImage_layers_plain [simp]:
  "layers_plain (world_of (loadImage f cb w)) = layers_plain w"
  by (simp add: loadImage_def Let_def split: prod.splits)

lemma updateFunctions_layers_plain:
  assumes "updateFunctions k = Some f"
  shows "layers_plain (world_of (f e w)) = layers_plain w"
proof -
  have fnt: "layers_plain (world_of (updateFont e w)) = layers_plain w"
    unfolding updateFont_def
    by (subst and_then_layers_plain) simp_all
  from assms show ?thesis
    by (auto simp: updateFunctions_def fnt updateBackgroundImage_def updateBackgroundColor_def
        updateTextColor_def updateWatermarkColor_def updateSquareImage_def updateRotation_def
        updateText_def updateWatermark_def updateTextSize_def updateSquareSize_def
        updateBgBlur_def updateIconColor_def updateIconBgSize_def updateText3D_def
        updateShadowColor_def updateShadowStrength_def Let_def
        split: if_splits list.splits)
qed

lemma updateByType_layers_plain [simp]:
  "layers_plain (world_of (updateByType k e w)) = layers_plain w"
  by (cases "updateFunctions k") (simp_all add: updateByType_def updateFunctions_layers_plain)

lemma batch_case_outcome: "snd (batch_case k e nr w) = updateByType k e w"
  by (simp add: batch_case_def updateByType_def updateFunctions_def)

lemma batch_loop_layers_plain:
  "layers_plain (world_of (snd (batch_loop us nr w))) = layers_plain w"
proof (induction us arbitrary: nr w)
  case Nil
  then show ?case by simp
next
  case (Cons u us)
  obtain k e where u: "u = (k, e)" by (cases u)
  obtain nr' r where b: "batch_case k e nr w = (nr', r)" by (cases "batch_case k e nr w")
  have r: "layers_plain (world_of r) = layers_plain w"
    using batch_case_outcome[of k e nr w] by (simp add: b)
  show ?case
    using Cons.IH[of nr' "world_of r"] r by (cases r) (simp_all add: u b)
qed

lemma processBatchUpdates_layers_plain [simp]:
  "layers_plain (world_of (processBatchUpdates w)) = layers_plain w"
proof -
  let ?w0 = "w\<lparr>updateQueue := [], updateScheduled := False\<rparr>"
  let ?no = "\<lparr>nr_background = False, nr_text = False, nr_watermark = False, nr_square = False\<rparr>"
  obtain nr r where b: "batch_loop (updateQueue w) ?no ?w0 = (nr, r)"
    by (cases "batch_loop (updateQueue w) ?no ?w0")
  have r: "layers_plain (world_of r) = layers_plain w"
    using batch_loop_layers_plain[of "updateQueue w" ?no ?w0] by (simp add: b)
  have "layers_plain (world_of (processBatchUpdates w)) = layers_plain (world_of r)"
    unfolding processBatchUpdates_def Let_def b prod.case
    by (intro and_then_layers_plain[THEN trans] refl | simp)+
  then show ?thesis by (simp add: r)
qed

lemma initialize_layers_plain [simp]:
  "layers_plain (world_of (initialize w)) = layers_plain w"
proof (cases "document_canvasPreview w")
  case None
  then show ?thesis by (simp add: initialize_def Let_def)
next
  case (Some el)
  have "layers_plain (world_of (initialize w)) =
      layers_plain (world_of (drawBackground (w\<lparr>canvas := Some el, ctx := Some el\<rparr>)))"
    unfolding initialize_def Let_def
    by (simp add: Some) (intro and_then_layers_plain[THEN trans] refl | simp)+
  then show ?thesis by simp
qed

lemma fire_layers_plain [simp]: "layers_plain (world_of (fire env t w)) = layers_plain w"
  by (cases t)
     (simp_all add: reader_onload_def saveWebp_callback_def split: option.splits)

lemma perform_layers_plain: "layers_plain (world_of (perform env a w)) = layers_plain w"
proof (cases a)
  case (Redraw l)
  then show ?thesis by (cases l) simp_all
qed (simp_all add: scheduleUpdate_def Let_def saveWebp_def cleanup_def run_pending_def
      split: option.splits)

theorem layers_stay_plain: "layers_plain (perform_all env as w) = layers_plain w"
  by (induction as arbitrary: w) (simp_all add: perform_layers_plain)

lemma output_ok_updates [simp]:
  "output_ok (w\<lparr>state := st\<rparr>) = output_ok w"
  "output_ok (w\<lparr>imageCache := ic\<rparr>) = output_ok w"
  "output_ok (w\<lparr>pending := ps\<rparr>) = output_ok w"
  "output_ok (w\<lparr>updateQueue := q\<rparr>) = output_ok w"
  "output_ok (w\<lparr>updateScheduled := b\<rparr>) = output_ok w"
  "output_ok (w\<lparr>console := lg\<rparr>) = output_ok w"
  "output_ok (w\<lparr>downloads := ds\<rparr>) = output_ok w"
  "output_ok (w\<lparr>calls := cl\<rparr>) = output_ok w"
  "output_ok (w\<lparr>bgCanvas := cv\<rparr>) = output_ok w"
  "output_ok (w\<lparr>textCanvas := cv\<rparr>) = output_ok w"
  "output_ok (w\<lparr>squareCanvas := cv\<rparr>) = output_ok w"
  "output_ok (w\<lparr>watermarkCanvas := cv\<rparr>) = output_ok w"
  by (simp_all add: output_ok_def)

lemma composeCanvases_output_ok [simp]:
  "output_ok (world_of (composeCanvases w)) = output_ok w"
proof (cases "ctx w")
  case None
  then show ?thesis by (simp add: composeCanvases_def Let_def)
next
  case (Some c)
  show ?thesis
  proof (cases "canvas w")
    case None
    then show ?thesis by (simp add: composeCanvases_def Let_def Some)
  next
    case (Some cv)
    note cv = this
    define out where "out =
      drawCanvas_at (watermarkCanvas w) 0 0 (drawCanvas_at (squareCanvas w) 0 0
        (drawCanvas_at (textCanvas w) 0 0 (drawCanvas_at (bgCanvas w) 0 0
          (clearRect 0 0 (width (elements w cv)) (height (elements w cv)) (elements w c)))))"
    have p: "plain out = plain (elements w c)" by (simp add: out_def drawCanvas_at_def)
    have e: "world_of (composeCanvases w) =
        w\<lparr>calls := calls w @ [Call_composeCanvases], elements := (elements w)(c := out)\<rparr>"
      by (simp add: composeCanvases_def Let_def \<open>ctx w = Some c\<close> cv out_def)
    have "(\<forall>x. plain (((elements w)(c := out)) x)) = (\<forall>x. plain (elements w x))"
      using p by (metis fun_upd_apply)
    then show ?thesis by (simp add: e output_ok_def)
  qed
qed

lemma draw_output_ok [simp]:
  "output_ok (world_of (drawBackground w)) = output_ok w"
  "output_ok (world_of (drawText w)) = output_ok w"
  "output_ok (world_of (drawWatermark w)) = output_ok w"
  "output_ok (world_of (drawSquareImage w)) = output_ok w"
  "output_ok (world_of (drawBackground_onload im w)) = output_ok w"
  "output_ok (world_of (drawSquareImage_onload im w)) = output_ok w"
  by (simp_all add: draw_defs drawBackground_onload_def drawSquareImage_onload_def Let_def
      split: prod.splits)

lemma and_then_output_ok:
  assumes "\<And>u. output_ok (world_of (f u)) = output_ok u"
  shows "output_ok (world_of (and_then r f)) = output_ok (world_of r)"
  using assms by (cases r) (simp_all add: and_then_def)

lemma run_callback_output_ok [simp]:
  "output_ok (world_of (run_callback cb url w)) = output_ok w"
  by (cases cb) (simp_all add: run_callback_def)

lemma loadImage_output_ok [simp]:
  "output_ok (world_of (loadImage f cb w)) = output_ok w"
  by (simp add: loadImage_def Let_def split: prod.splits)

lemma updateFunctions_output_ok:
  assumes "updateFunctions k = Some f"
  shows "output_ok (world_of (f e w)) = output_ok w"
proof -
  have fnt: "output_ok (world_of (updateFont e w)) = output_ok w"
    unfolding updateFont_def
    by (subst and_then_output_ok) simp_all
  from assms show ?thesis
    by (auto simp: updateFunctions_def fnt updateBackgroundImage_def updateBackgroundColor_def
        updateTextColor_def updateWatermarkColor_def updateSquareImage_def updateRotation_def
        updateText_def updateWatermark_def updateTextSize_def updateSquareSize_def
        updateBgBlur_def updateIconColor_def updateIconBgSize_def updateText3D_def
        updateShadowColor_def updateShadowStrength_def Let_def
        split: if_splits list.splits)
qed

lemma updateByType_output_ok [simp]:
  "output_ok (world_of (updateByType k e w)) = output_ok w"
  by (cases "updateFunctions k") (simp_all add: updateByType_def updateFunctions_output_ok)

lemma batch_loop_output_ok:
  "output_ok (world_of (snd (batch_loop us nr w))) = output_ok w"
proof (induction us arbitrary: nr w)
  case Nil
  then show ?case by simp
next
  case (Cons u us)
  obtain k e where u: "u = (k, e)" by (cases u)
  obtain nr' r where b: "batch_case k e nr w = (nr', r)" by (cases "batch_case k e nr w")
  have r: "output_ok (world_of r) = output_ok w"
    using batch_case_outcome[of k e nr w] by (simp add: b)
  show ?case
    using Cons.IH[of nr' "world_of r"] r by (cases r) (simp_all add: u b)
qed

lemma processBatchUpdates_output_ok [simp]:
  "output_ok (world_of (processBatchUpdates w)) = output_ok w"
proof -
  let ?w0 = "w\<lparr>updateQueue := [], updateScheduled := False\<rparr>"
  let ?no = "\<lparr>nr_background = False, nr_text = False, nr_watermark = False, nr_square = False\<rparr>"
  obtain nr r where b: "batch_loop (updateQueue w) ?no ?w0 = (nr, r)"
    by (cases "batch_loop (updateQueue w) ?no ?w0")
  have r: "output_ok (world_of r) = output_ok w"
    using batch_loop_output_ok[of "updateQueue w" ?no ?w0] by (simp add: b)
  have "output_ok (world_of (processBatchUpdates w)) = output_ok (world_of r)"
    unfolding processBatchUpdates_def Let_def b prod.case
    by (intro and_then_output_ok[THEN trans] refl | simp)+
  then show ?thesis by (simp add: r)
qed

lemma initialize_output_ok:
  assumes "output_ok w"
  shows "output_ok (world_of (initialize w))"
proof (cases "document_canvasPreview w")
  case None
  then show ?thesis using assms by (simp add: initialize_def Let_def output_ok_def)
next
  case (Some el)
  have "output_ok (world_of (initialize w)) =
      output_ok (world_of (drawBackground (w\<lparr>canvas := Some el, ctx := Some el\<rparr>)))"
    unfolding initialize_def Let_def
    by (simp add: Some) (intro and_then_output_ok[THEN trans] refl | simp)+
  moreover have "output_ok (w\<lparr>canvas := Some el, ctx := Some el\<rparr>)"
    using assms by (simp add: output_ok_def)
  ultimately show ?thesis by simp
qed

lemma fire_output_ok [simp]: "output_ok (world_of (fire env t w)) = output_ok w"
  by (cases t)
     (simp_all add: reader_onload_def saveWebp_callback_def split: option.splits)

lemma perform_output_ok:
  assumes "output_ok w"
  shows "output_ok (world_of (perform env a w))"
proof (cases a)
  case (Redraw l)
  then show ?thesis using assms by (cases l) simp_all
next
  case Initialize
  then show ?thesis using assms by (simp add: initialize_output_ok)
qed (use assms in \<open>simp_all add: scheduleUpdate_def Let_def saveWebp_def cleanup_def
      run_pending_def split: option.splits\<close>)

lemma perform_all_output_ok: "output_ok w \<Longrightarrow> output_ok (perform_all env as w)"
  by (induction as arbitrary: w) (simp_all add: perform_output_ok)

lemma initial_world_ok:
  assumes "\<forall>c. plain (els c)"
  shows "layers_plain (initial_world fontFamily els preview family)"
    and "output_ok (initial_world fontFamily els preview family)"
  using assms
  by (simp_all add: initial_world_def layers_plain_def output_ok_def plain_def createCanvas_def
      default_pen_def)

theorem module_invariant:
  assumes "\<forall>c. plain (els c)"
  shows "let w = perform_all env as (initial_world fontFamily els preview family) in
           layers_plain w \<and> output_ok w \<and> (canvas w \<noteq> None \<longrightarrow> acquired w)"
proof -
  define w where "w = perform_all env as (initial_world fontFamily els preview family)"
  have l: "layers_plain w"
    unfolding w_def by (simp add: layers_stay_plain initial_world_ok(1)[OF assms])
  have o: "output_ok w"
    unfolding w_def by (rule perform_all_output_ok) (rule initial_world_ok(2)[OF assms])
  have "acquired w" if "canvas w \<noteq> None"
    using that o by (auto simp: output_ok_def acquired_def)
  then show ?thesis unfolding w_def[symmetric] Let_def using l o by simp
qed

theorem module_invariant_witness:
  "layers_plain ready_world \<and> output_ok ready_world \<and> canvas ready_world \<noteq> None
   \<and> acquired ready_world"
proof -
  have p: "\<forall>c. plain (createCanvas 1000 500)"
    by (simp add: plain_def createCanvas_def default_pen_def)
  have r: "perform_all null_browser [Initialize]
      (initial_world None (\<lambda>_. createCanvas 1000 500) (Some 0) ''sans-serif'') = ready_world"
    by (simp add: ready_world_def page_world_def)
  have c: "canvas ready_world \<noteq> None"
    using ready_world_ok(2) by (auto simp: acquired_def split: option.splits)
  from module_invariant[of "\<lambda>_. createCanvas 1000 500" null_browser "[Initialize]" None "Some 0"
      "''sans-serif''"] p c
  show ?thesis unfolding r Let_def by simp
qed

end
